theory Spec2Isabelle
  imports Main "HOL-Library.Word" "HOL-Library.Multiset" "HOL-Library.Sublist"
begin

unbundle bit_operations_syntax

section \<open>Address space and XOR distance\<close>

text \<open>
  A Go byte slice is a list of 8-bit words. A \<open>swarm.Address\<close> wraps a byte slice and is
  compared with \<open>bytes.Equal\<close>, so the model identifies it with its bytes. The zero value
  of \<open>swarm.Address\<close> and \<open>swarm.ZeroAddress\<close> both carry no bytes.
\<close>

type_synonym byte = "8 word"
type_synonym address = "byte list"

definition ZeroAddress :: address where
  "ZeroAddress = []"

text \<open>
  Go errors carry a message; \<open>fmt.Errorf\<close> with \<open>%w\<close> wraps an error behind a prefix,
  and \<open>Error()\<close> of the wrapper is the prefix followed by the inner message.
\<close>

datatype error = Err string | Wrap string error

fun message :: "error \<Rightarrow> string" where
  "message (Err s) = s"
| "message (Wrap p e) = p @ message e"

definition errAddressLength :: error where
  "errAddressLength = Err ''address length must match''"

text \<open>
  \<open>distanceRaw\<close>: the length check, then \<open>c[i] = x[i] ^ y[i]\<close> for every index of \<open>x\<close>.
\<close>

definition distanceRaw :: "byte list \<Rightarrow> byte list \<Rightarrow> error + byte list" where
  "distanceRaw x y =
     (if length x \<noteq> length y then Inl errAddressLength
      else Inr (map (\<lambda>i. (x ! i) XOR (y ! i)) [0..<length x]))"

text \<open>\<open>big.Int.SetBytes\<close>: the bytes read as a big-endian unsigned integer.\<close>

fun SetBytes_from :: "nat \<Rightarrow> byte list \<Rightarrow> nat" where
  "SetBytes_from acc [] = acc"
| "SetBytes_from acc (b # bs) = SetBytes_from (acc * 256 + unat b) bs"

definition SetBytes :: "byte list \<Rightarrow> nat" where
  "SetBytes bs = SetBytes_from 0 bs"

definition distance :: "byte list \<Rightarrow> byte list \<Rightarrow> error + nat" where
  "distance x y =
     (case distanceRaw x y of
        Inl e \<Rightarrow> Inl e
      | Inr distanceBytes \<Rightarrow> Inr (SetBytes distanceBytes))"

section \<open>Topology snapshot and the farthest pair\<close>

text \<open>
  \<open>orchestration.NodeGroupOverlays\<close> is a Go map from node name to overlay address. A
  \<open>range\<close> over a Go map visits every entry once, in an order the language leaves
  open and does not repeat from one \<open>range\<close> statement to the next. The model therefore
  takes the order of each \<open>range\<close> as an input: an association list that enumerates the
  map.
\<close>

type_synonym overlays = "(string \<times> address) list"

definition ranges_over :: "(string \<rightharpoonup> address) \<Rightarrow> overlays \<Rightarrow> bool" where
  "ranges_over m l \<longleftrightarrow> distinct (map fst l) \<and> map_of l = m"

text \<open>The same enumeration for every \<open>range\<close> statement.\<close>

definition fixedOrder :: "overlays \<Rightarrow> nat \<Rightarrow> overlays" where
  "fixedOrder l k = l"

text \<open>
  \<open>findFarthestNodes\<close>, inner loop \<open>for _, c := range overlays\<close> for one \<open>a\<close>. The
  state is \<open>(dist, overlayA, overlayC)\<close>; a failing \<open>distance\<close> returns at once.
\<close>

fun farthest_inner ::
  "address \<Rightarrow> overlays \<Rightarrow> nat \<times> address \<times> address \<Rightarrow> error + (nat \<times> address \<times> address)" where
  "farthest_inner a [] st = Inr st"
| "farthest_inner a ((name, c) # cs) (dist, overlayA, overlayC) =
     (if a = c then farthest_inner a cs (dist, overlayA, overlayC)
      else case distance a c of
        Inl err \<Rightarrow> Inl err
      | Inr currDist \<Rightarrow>
          if currDist > dist then farthest_inner a cs (currDist, a, c)
          else farthest_inner a cs (dist, overlayA, overlayC))"

text \<open>
  Outer loop \<open>for _, a := range overlays\<close>; \<open>inner k\<close> is the order in which the inner
  \<open>range\<close> runs during the \<open>k\<close>-th outer step.
\<close>

fun farthest_outer ::
  "nat \<Rightarrow> overlays \<Rightarrow> (nat \<Rightarrow> overlays) \<Rightarrow> nat \<times> address \<times> address
     \<Rightarrow> error + (nat \<times> address \<times> address)" where
  "farthest_outer k [] inner st = Inr st"
| "farthest_outer k ((name, a) # as) inner st =
     (case farthest_inner a (inner k) st of
        Inl err \<Rightarrow> Inl err
      | Inr st' \<Rightarrow> farthest_outer (Suc k) as inner st')"

definition findFarthestNodes ::
  "overlays \<Rightarrow> (nat \<Rightarrow> overlays) \<Rightarrow> error + (address \<times> address)" where
  "findFarthestNodes outer inner =
     (case farthest_outer 0 outer inner (0, ZeroAddress, ZeroAddress) of
        Inl err \<Rightarrow> Inl err
      | Inr (dist, overlayA, overlayC) \<Rightarrow> Inr (overlayA, overlayC))"

text \<open>
  The brute-force reference of the specification: the largest XOR value over all ordered
  pairs of snapshot addresses.
\<close>

definition xorValue :: "address \<Rightarrow> address \<Rightarrow> nat" where
  "xorValue x y = SetBytes (map2 (XOR) x y)"

definition bruteForceFarthest :: "address list \<Rightarrow> nat" where
  "bruteForceFarthest as = fold max (concat (map (\<lambda>x. map (xorValue x) as) as)) 0"

text \<open>
  The head of \<open>getNodes\<close>: the overlays of the node group, the node count check and the
  choice of A and C.
\<close>

definition minNodesRequired :: nat where
  "minNodesRequired = 3"

definition errLessNodesForTest :: error where
  "errLessNodesForTest = Err ''node count is less than the minimum count required''"

definition getNodes_farthest ::
  "error + overlays \<Rightarrow> (nat \<Rightarrow> overlays) \<Rightarrow> nat \<Rightarrow> error + (address \<times> address)" where
  "getNodes_farthest overlaysResult inner groupSize =
     (case overlaysResult of
        Inl err \<Rightarrow> Inl err
      | Inr outer \<Rightarrow>
          if groupSize < minNodesRequired then Inl errLessNodesForTest
          else findFarthestNodes outer inner)"

text \<open>The loop invariant of \<open>findFarthestNodes\<close> over the address set \<open>S\<close>.\<close>

definition farthest_inv :: "address set \<Rightarrow> nat \<times> address \<times> address \<Rightarrow> bool" where
  "farthest_inv S st \<longleftrightarrow>
     (case st of (d, A, C) \<Rightarrow>
        (d = 0 \<and> A = ZeroAddress \<and> C = ZeroAddress) \<or>
        (0 < d \<and> A \<in> S \<and> C \<in> S \<and> xorValue A C = d))"

section \<open>Seeded generator and \<open>Perm\<close>\<close>

text \<open>
  A \<open>*rand.Rand\<close> is a deterministic state machine. Its state type is left open
  (\<open>'g\<close>); a \<open>source\<close> maps a state and a bound to a raw draw and the next state.
  \<open>Intn\<close> reduces the raw draw below its bound, so every in-range behaviour of
  \<open>Rand.Intn\<close> is an instance. \<open>Perm\<close> is the loop of \<open>math/rand\<close>:
  \<open>for i := 0; i < n; i++ { j := r.Intn(i + 1); m[i] = m[j]; m[j] = i }\<close>.
\<close>

type_synonym 'g source = "'g \<Rightarrow> nat \<Rightarrow> nat \<times> 'g"

definition Intn :: "'g source \<Rightarrow> 'g \<Rightarrow> nat \<Rightarrow> nat \<times> 'g" where
  "Intn src g n = (case src g n of (v, g') \<Rightarrow> (v mod n, g'))"

fun perm_loop :: "'g source \<Rightarrow> nat \<Rightarrow> nat \<Rightarrow> nat list \<Rightarrow> 'g \<Rightarrow> nat list \<times> 'g" where
  "perm_loop src 0 i m g = (m, g)"
| "perm_loop src (Suc r) i m g =
     (case Intn src g (i + 1) of
        (j, g') \<Rightarrow> perm_loop src r (Suc i) (m[i := m ! j, j := i]) g')"

definition Perm :: "'g source \<Rightarrow> 'g \<Rightarrow> nat \<Rightarrow> nat list \<times> 'g" where
  "Perm src g n = perm_loop src n 0 (replicate n 0) g"


section \<open>RoundTripCheck: \<open>Run\<close> of package smoke\<close>

text \<open>
  What \<open>Run\<close> can end with: a returned error value (\<open>None\<close> is \<open>nil\<close>) or a
  panic (an index out of range).
\<close>

datatype outcome = Return "error option" | Panic

text \<open>
  The observable steps of a run, in order: each query of \<open>ctx.Done()\<close> with its place
  and answer, the restart taken when both indices coincide, the chosen uploader and
  downloader indices, the generated payload, every upload and download attempt with its
  error, and the two mismatch reports.
\<close>

datatype place = IterationTop | UploadRetry | DownloadRetry

datatype smoke_event =
    Check place bool
  | SamePeer
  | Selected nat nat
  | Payload "byte list"
  | UploadAttempt "error option"
  | DownloadAttempt "error option"
  | LengthMismatch nat nat
  | DataMismatch nat

text \<open>
  Everything outside \<open>Run\<close>: the generator behind \<open>random.PseudoGenerator\<close> (a
  function of the seed), the cluster (\<open>NodesClients\<close> error, \<open>Size\<close>,
  \<open>NodeNames\<close>), the answer of the \<open>k\<close>-th \<open>ctx.Done()\<close> query, what
  \<open>crypto/rand.Read\<close> delivers in iteration \<open>i\<close>, and the results of
  \<open>test.upload\<close> and \<open>test.download\<close> for iteration \<open>i\<close> and attempt \<open>n\<close>
  (address or data, and the measured duration).
\<close>

record 'g smoke_world =
  pseudoGenerator :: "int \<Rightarrow> 'g"
  source :: "'g source"
  nodesClientsError :: "error option"
  clusterSize :: nat
  nodeNames :: "string list"
  ctxDone :: "nat \<Rightarrow> bool"
  cryptoRead :: "nat \<Rightarrow> error + byte list"
  upload :: "nat \<Rightarrow> nat \<Rightarrow> string \<Rightarrow> byte list \<Rightarrow> error + (address \<times> int)"
  download :: "nat \<Rightarrow> nat \<Rightarrow> string \<Rightarrow> address \<Rightarrow> error + (byte list \<times> int)"

text \<open>
  One pass through the body of the upload loop after its \<open>select\<close>:
  \<open>address, txDuration, err = test.upload(txName, txData)\<close>; on an error
  \<open>test.upload\<close> returns the zero address and duration 0.
\<close>

definition uploadAttempt ::
  "'g smoke_world \<Rightarrow> nat \<Rightarrow> nat \<Rightarrow> string \<Rightarrow> byte list \<Rightarrow> smoke_event \<times> address \<times> int" where
  "uploadAttempt w i n txName txData =
     (case upload w i n txName txData of
        Inl err \<Rightarrow> (UploadAttempt (Some err), ZeroAddress, 0)
      | Inr (address, txDuration) \<Rightarrow> (UploadAttempt None, address, txDuration))"

text \<open>
  \<open>for retries := 3; txDuration == 0 && retries > 0; retries--\<close>. The result is
  \<open>None\<close> when the \<open>select\<close> found the context done (\<open>return nil\<close>), else the
  final \<open>address\<close> and \<open>txDuration\<close>; with it the next query index and the events.
\<close>

fun uploadLoop ::
  "'g smoke_world \<Rightarrow> nat \<Rightarrow> string \<Rightarrow> byte list \<Rightarrow> nat \<Rightarrow> nat \<Rightarrow> address \<Rightarrow> int
     \<Rightarrow> (address \<times> int) option \<times> nat \<times> smoke_event list" where
  "uploadLoop w i txName txData 0 k address txDuration = (Some (address, txDuration), k, [])"
| "uploadLoop w i txName txData (Suc retries) k address txDuration =
     (if txDuration \<noteq> 0 then (Some (address, txDuration), k, [])
      else if ctxDone w k then (None, Suc k, [Check UploadRetry True])
      else case uploadAttempt w i (3 - Suc retries) txName txData of
        (ev, address', txDuration') \<Rightarrow>
          (case uploadLoop w i txName txData retries (Suc k) address' txDuration' of
             (r, k', tr) \<Rightarrow> (r, k', Check UploadRetry False # ev # tr)))"

text \<open>The number of indices at which the two payloads differ.\<close>

definition diffCount :: "byte list \<Rightarrow> byte list \<Rightarrow> nat" where
  "diffCount txData rxData = length (filter (\<lambda>i. txData ! i \<noteq> rxData ! i) [0..<length txData])"

text \<open>
  One pass through the body of the download loop after its \<open>select\<close>: the error of
  \<open>test.download\<close>, the mismatch report, the new \<open>rxDuration\<close> and whether the
  \<open>break\<close> on equal data was taken.
\<close>

definition downloadAttempt ::
  "'g smoke_world \<Rightarrow> nat \<Rightarrow> nat \<Rightarrow> string \<Rightarrow> address \<Rightarrow> byte list
     \<Rightarrow> error option \<times> smoke_event list \<times> int \<times> bool" where
  "downloadAttempt w i n rxName address txData =
     (case download w i n rxName address of
        Inl err \<Rightarrow> (Some err, [], 0, False)
      | Inr (rxData, rxDuration) \<Rightarrow>
          if rxDuration = 0 then (None, [], 0, False)
          else if rxData = txData then (None, [], rxDuration, True)
          else if length rxData \<noteq> length txData
            then (None, [LengthMismatch (length rxData) (length txData)], rxDuration, False)
          else (None, [DataMismatch (diffCount txData rxData)], rxDuration, False))"

text \<open>
  \<open>for retries := 3; rxDuration == 0 && retries > 0; retries--\<close>; the \<open>select\<close>
  waits for \<open>ctx.Done()\<close> or \<open>time.After(o.RxOnErrWait)\<close>, and the query answers
  which came first. The first component says whether \<open>Run\<close> returned \<open>nil\<close> here.
\<close>

fun downloadLoop ::
  "'g smoke_world \<Rightarrow> nat \<Rightarrow> string \<Rightarrow> address \<Rightarrow> byte list \<Rightarrow> nat \<Rightarrow> nat \<Rightarrow> int
     \<Rightarrow> bool \<times> nat \<times> smoke_event list" where
  "downloadLoop w i rxName address txData 0 k rxDuration = (False, k, [])"
| "downloadLoop w i rxName address txData (Suc retries) k rxDuration =
     (if rxDuration \<noteq> 0 then (False, k, [])
      else if ctxDone w k then (True, Suc k, [Check DownloadRetry True])
      else case downloadAttempt w i (3 - Suc retries) rxName address txData of
        (err, report, rxDuration', matched) \<Rightarrow>
          if matched
            then (False, Suc k, Check DownloadRetry False # DownloadAttempt err # report)
          else
            (case downloadLoop w i rxName address txData retries (Suc k) rxDuration' of
               (c, k', tr) \<Rightarrow>
                 (c, k', Check DownloadRetry False # DownloadAttempt err # report @ tr)))"

text \<open>One iteration either goes on (generator and next query index) or ends the run.\<close>

datatype 'g step = Continue 'g nat | Stop outcome

text \<open>
  The iteration body from \<open>rand.Read(txData)\<close> on: payload, upload loop, the
  \<open>txDuration == 0\<close> check, download loop.
\<close>

definition afterSelect ::
  "'g smoke_world \<Rightarrow> nat \<Rightarrow> 'g \<Rightarrow> nat \<Rightarrow> nat \<Rightarrow> nat \<Rightarrow> 'g step \<times> smoke_event list" where
  "afterSelect w i g' k txIdx rxIdx =
     (case cryptoRead w i of
        Inl err \<Rightarrow> (Continue g' (Suc k), [])
      | Inr txData \<Rightarrow>
          (case uploadLoop w i (nodeNames w ! txIdx) txData 3 (Suc k) ZeroAddress 0 of
             (None, k', tr) \<Rightarrow> (Stop (Return None), Payload txData # tr)
           | (Some (address, txDuration), k', tr) \<Rightarrow>
               if txDuration = 0 then (Continue g' k', Payload txData # tr)
               else
                 (case downloadLoop w i (nodeNames w ! rxIdx) address txData 3 k' 0 of
                    (True, k'', tr') \<Rightarrow> (Stop (Return None), Payload txData # tr @ tr')
                  | (False, k'', tr') \<Rightarrow> (Continue g' k'', Payload txData # tr @ tr'))))"

text \<open>
  One iteration of \<open>for i := 0; true; i++\<close>: the \<open>select\<close> at the top,
  \<open>perm := rnd.Perm(cluster.Size())\<close>, \<open>perm[0]\<close> and \<open>perm[1]\<close> (a panic when
  the permutation is shorter), the restart on equal indices, \<open>nn[txIdx]\<close> and
  \<open>nn[rxIdx]\<close> (a panic out of range), then the rest of the body.
\<close>

definition smokeIteration ::
  "'g smoke_world \<Rightarrow> nat \<Rightarrow> 'g \<Rightarrow> nat \<Rightarrow> 'g step \<times> smoke_event list" where
  "smokeIteration w i g k =
     (if ctxDone w k then (Stop (Return None), [Check IterationTop True])
      else case Perm (source w) g (clusterSize w) of
        (perm, g') \<Rightarrow>
          if length perm < 2 then (Stop Panic, [Check IterationTop False])
          else if perm ! 0 = perm ! 1 then (Continue g' (Suc k), [Check IterationTop False, SamePeer])
          else if length (nodeNames w) \<le> perm ! 0 \<or> length (nodeNames w) \<le> perm ! 1
            then (Stop Panic, [Check IterationTop False])
          else case afterSelect w i g' k (perm ! 0) (perm ! 1) of
            (st, rest) \<Rightarrow> (st, Check IterationTop False # Selected (perm ! 0) (perm ! 1) # rest))"

text \<open>
  The loop has no bound of its own, so the model counts iterations down from \<open>fuel\<close>;
  a run that has not returned within \<open>fuel\<close> iterations has outcome \<open>None\<close>.
\<close>

fun smokeRunLoop ::
  "nat \<Rightarrow> 'g smoke_world \<Rightarrow> nat \<Rightarrow> 'g \<Rightarrow> nat \<Rightarrow> outcome option \<times> smoke_event list" where
  "smokeRunLoop 0 w i g k = (None, [])"
| "smokeRunLoop (Suc fuel) w i g k =
     (case smokeIteration w i g k of
        (Stop out, tr) \<Rightarrow> (Some out, tr)
      | (Continue g' k', tr) \<Rightarrow>
          (case smokeRunLoop fuel w (Suc i) g' k' of (r, tr') \<Rightarrow> (r, tr @ tr')))"

definition smokeRun :: "nat \<Rightarrow> 'g smoke_world \<Rightarrow> int \<Rightarrow> outcome option \<times> smoke_event list" where
  "smokeRun fuel w rndSeed =
     (case nodesClientsError w of
        Some err \<Rightarrow> (Some (Return (Some err)), [])
      | None \<Rightarrow> smokeRunLoop fuel w 0 (pseudoGenerator w rndSeed) 0)"

subsection \<open>Predicates on runs\<close>

text \<open>The events that record a choice of roles.\<close>

fun isRole :: "smoke_event \<Rightarrow> bool" where
  "isRole (Selected tx rx) = True"
| "isRole SamePeer = True"
| "isRole e = False"

text \<open>A query that found the context done.\<close>

fun isFired :: "smoke_event \<Rightarrow> bool" where
  "isFired (Check p b) = b"
| "isFired e = False"

text \<open>Nothing follows a query that found the context done.\<close>

fun firedLast :: "smoke_event list \<Rightarrow> bool" where
  "firedLast [] = True"
| "firedLast (e # es) = ((isFired e \<longrightarrow> es = []) \<and> firedLast es)"

text \<open>
  The query that has to come directly before an event: role selection follows the query
  at the top of the iteration, an upload or download attempt the query in its loop.
\<close>

fun needsCheck :: "smoke_event \<Rightarrow> place option" where
  "needsCheck (Selected tx rx) = Some IterationTop"
| "needsCheck SamePeer = Some IterationTop"
| "needsCheck (UploadAttempt e) = Some UploadRetry"
| "needsCheck (DownloadAttempt e) = Some DownloadRetry"
| "needsCheck e = None"

fun guarded :: "smoke_event option \<Rightarrow> smoke_event list \<Rightarrow> bool" where
  "guarded prev [] = True"
| "guarded prev (e # es) =
     ((case needsCheck e of None \<Rightarrow> True | Some p \<Rightarrow> prev = Some (Check p False))
      \<and> guarded (Some e) es)"

text \<open>
  The role event of one iteration as a function of the generator state, the cluster size
  and the number of node names; then the events of the first \<open>m\<close> iterations.
\<close>

definition roleDraw :: "'g source \<Rightarrow> nat \<Rightarrow> nat \<Rightarrow> 'g \<Rightarrow> smoke_event option" where
  "roleDraw src n names g =
     (case Perm src g n of
        (perm, g') \<Rightarrow>
          if length perm < 2 then None
          else if perm ! 0 = perm ! 1 then Some SamePeer
          else if names \<le> perm ! 0 \<or> names \<le> perm ! 1 then None
          else Some (Selected (perm ! 0) (perm ! 1)))"

fun rolesSeq :: "'g source \<Rightarrow> nat \<Rightarrow> nat \<Rightarrow> 'g \<Rightarrow> nat \<Rightarrow> smoke_event list" where
  "rolesSeq src n names g 0 = []"
| "rolesSeq src n names g (Suc m) =
     (case roleDraw src n names g of
        None \<Rightarrow> []
      | Some ev \<Rightarrow> ev # rolesSeq src n names (snd (Perm src g n)) m)"

text \<open>Events that are neither roles nor fired queries nor attempts.\<close>

definition quiet :: "smoke_event list \<Rightarrow> bool" where
  "quiet tr \<longleftrightarrow> (\<forall>e \<in> set tr. \<not> isRole e \<and> \<not> isFired e \<and> needsCheck e = None)"

text \<open>The four trace properties of a segment of a run.\<close>

definition segOK :: "smoke_event list \<Rightarrow> bool \<Rightarrow> bool" where
  "segOK tr cancelled \<longleftrightarrow>
     filter isRole tr = [] \<and> (\<forall>q. guarded q tr) \<and> firedLast tr
     \<and> ((\<exists>e \<in> set tr. isFired e) \<longleftrightarrow> cancelled)"


subsection \<open>A concrete cluster\<close>

text \<open>
  A generator that counts, a context that is done from the \<open>K\<close>-th query on, and a
  two-node cluster whose network never fails: an upload returns the payload as its
  address, a download returns the addressed bytes. The bytes \<open>crypto/rand\<close> delivers
  are a parameter.
\<close>

definition counterSource :: "nat source" where
  "counterSource g n = (g, Suc g)"

definition doneFrom :: "nat \<Rightarrow> nat \<Rightarrow> bool" where
  "doneFrom K k \<longleftrightarrow> K \<le> k"

definition perfectNetwork :: "byte list \<Rightarrow> (nat \<Rightarrow> bool) \<Rightarrow> nat smoke_world" where
  "perfectNetwork entropy done =
     \<lparr> pseudoGenerator = nat,
       source = counterSource,
       nodesClientsError = None,
       clusterSize = 2,
       nodeNames = [''bee-0'', ''bee-1''],
       ctxDone = done,
       cryptoRead = (\<lambda>i. Inr entropy),
       upload = (\<lambda>i n name data. Inr (data, 1)),
       download = (\<lambda>i n name a. Inr (a, 1)) \<rparr>"

text \<open>
  The same cluster on a network in which the first attempt of every upload and of every
  download fails.
\<close>

definition flakyNetwork :: "byte list \<Rightarrow> (nat \<Rightarrow> bool) \<Rightarrow> nat smoke_world" where
  "flakyNetwork entropy done =
     \<lparr> pseudoGenerator = nat,
       source = counterSource,
       nodesClientsError = None,
       clusterSize = 2,
       nodeNames = [''bee-0'', ''bee-1''],
       ctxDone = done,
       cryptoRead = (\<lambda>i. Inr entropy),
       upload = (\<lambda>i n name data. if n = 0 then Inl (Err ''upload failed'') else Inr (data, 1)),
       download = (\<lambda>i n name a. if n = 0 then Inl (Err ''download failed'') else Inr (a, 1)) \<rparr>"

fun isPayload :: "smoke_event \<Rightarrow> bool" where
  "isPayload (Payload d) = True"
| "isPayload e = False"


section \<open>RecoveryCheck: \<open>Run\<close> of package chunkrepair\<close>

text \<open>A \<open>bee.Chunk\<close>: its data and its address.\<close>

record chunk =
  chunkData :: "byte list"
  chunkAddress :: address

text \<open>\<open>swarm.Address.String()\<close>: the lower-case hexadecimal encoding of the bytes.\<close>

definition hexDigit :: "nat \<Rightarrow> char" where
  "hexDigit n = ''0123456789abcdef'' ! n"

definition hexString :: "address \<Rightarrow> string" where
  "hexString a = concat (map (\<lambda>b. [hexDigit (unat b div 16), hexDigit (unat b mod 16)]) a)"

text \<open>The constant \<open>maxIterations\<close> of the package.\<close>

definition maxIterations :: nat where
  "maxIterations = 10"

text \<open>
  The calls of an iteration that the claims speak about, in order: \<open>HasChunk\<close> on a
  node with its answer, a sleep in milliseconds, \<open>DownloadChunk\<close> from a node with
  its origin hint and error, the \<open>ng.NodesClients\<close> call of
  \<open>deleteChunkFromAllNodes\<close> with its answer, \<open>RemoveChunk\<close> on a node with its
  error, the upload and the \<open>PinRootHash\<close> of \<open>uploadAndPinChunkToNode\<close>, and the
  metrics update of a repaired chunk.
\<close>

datatype repair_event =
    HasChunk string "error + bool"
  | Sleep nat
  | Download string string "error option"
  | NodesClients "error + string list"
  | Remove string "error option"
  | Reupload string "error option"
  | PinRootHash string "error option"
  | Repaired

text \<open>How one iteration ends: completed, \<open>return err\<close>, or a panic.\<close>

datatype repair_step = Completed | Failed error | Panicked

text \<open>
  Everything outside \<open>Run\<close>. \<open>getNodesResult\<close> gives the result of \<open>getNodes\<close>
  for iteration \<open>i\<close>: the clients A, B and C (by name) and the chunk. Every other field is
  the result of a network call, indexed by the number of calls made before it, so that
  a node may answer differently each time it is asked. \<open>nodesClients\<close> lists the
  clients of the node group in the order the \<open>range\<close> visits them.
\<close>

record repair_world =
  nodeGroupError :: "error option"
  numberOfChunksToRepair :: nat
  getNodesResult :: "nat \<Rightarrow> error + (string \<times> string \<times> string \<times> chunk)"
  overlay :: "nat \<Rightarrow> string \<Rightarrow> error + address"
  createPostageBatch :: "nat \<Rightarrow> string \<Rightarrow> error + string"
  uploadChunk :: "nat \<Rightarrow> string \<Rightarrow> byte list \<Rightarrow> error + address"
  hasChunk :: "nat \<Rightarrow> string \<Rightarrow> address \<Rightarrow> error + bool"
  downloadChunk :: "nat \<Rightarrow> string \<Rightarrow> address \<Rightarrow> string \<Rightarrow> error + byte list"
  nodesClients :: "nat \<Rightarrow> error + string list"
  removeChunk :: "nat \<Rightarrow> string \<Rightarrow> address \<Rightarrow> error option"
  pinRootHash :: "nat \<Rightarrow> string \<Rightarrow> address \<Rightarrow> error option"

text \<open>
  The first polling loop of \<open>Run\<close> (\<open>count := 0; for { ... }\<close>). The loop has no
  bound of its own on the path where \<open>HasChunk\<close> answers \<open>false\<close> without an
  error, so the model counts passes down from \<open>fuel\<close>; \<open>None\<close> is a loop that has
  not ended within \<open>fuel\<close> passes. A result \<open>Some e\<close> is \<open>return e\<close>,
  \<open>None\<close> the \<open>break\<close>.
\<close>

fun pollPresentOnB ::
  "nat \<Rightarrow> repair_world \<Rightarrow> nat \<Rightarrow> nat \<Rightarrow> string \<Rightarrow> address
     \<Rightarrow> (error option \<times> nat \<times> repair_event list) option" where
  "pollPresentOnB 0 w t cnt nodeB ref = None"
| "pollPresentOnB (Suc fuel) w t cnt nodeB ref =
     (if cnt > maxIterations
        then Some (Some (Err ''could not get chunk even after several attempts''), t, [])
      else case hasChunk w t nodeB ref of
          Inl err \<Rightarrow>
            (case pollPresentOnB fuel w (Suc t) (cnt + 1) nodeB ref of
               None \<Rightarrow> None
             | Some (r, t', tr) \<Rightarrow> Some (r, t', HasChunk nodeB (Inl err) # Sleep 100 # tr))
        | Inr present \<Rightarrow>
            if present then Some (None, Suc t, [HasChunk nodeB (Inr True)])
            else
              (case pollPresentOnB fuel w (Suc t) cnt nodeB ref of
                 None \<Rightarrow> None
               | Some (r, t', tr) \<Rightarrow> Some (r, t', HasChunk nodeB (Inr False) # tr)))"

text \<open>
  The second polling loop: \<open>count\<close> grows on every failed download, so the loop ends
  by itself.
\<close>

function pollRecoveredOnC ::
  "repair_world \<Rightarrow> nat \<Rightarrow> nat \<Rightarrow> string \<Rightarrow> chunk \<Rightarrow> error option \<times> nat \<times> repair_event list" where
  "pollRecoveredOnC w t cnt nodeC c =
     (if cnt > maxIterations
        then (Some (Err ''could not download even after several attempts''), t, [])
      else case downloadChunk w t nodeC (chunkAddress c) [] of
          Inl err \<Rightarrow>
            (case pollRecoveredOnC w (Suc t) (cnt + 1) nodeC c of
               (r, t', tr) \<Rightarrow> (r, t', Download nodeC [] (Some err) # Sleep 1000 # tr))
        | Inr data3 \<Rightarrow>
            if data3 \<noteq> chunkData c
              then (Some (Err ''chunk downloaded in NodeC does not have proper data''), Suc t,
                    [Download nodeC [] None])
            else (None, Suc t, [Download nodeC [] None, Repaired]))"
  by pat_completeness auto
termination
  by (relation "measure (\<lambda>(w, t, cnt, nodeC, c). Suc maxIterations - cnt)") auto

text \<open>
  \<open>deleteChunkFromAllNodes\<close>: the clients of the node group, then
  \<open>for _, node := range nodesClients\<close> with a return at the first failing
  \<open>RemoveChunk\<close>.
\<close>

fun removeFromNodes ::
  "repair_world \<Rightarrow> nat \<Rightarrow> string list \<Rightarrow> address \<Rightarrow> error option \<times> nat \<times> repair_event list" where
  "removeFromNodes w t [] a = (None, t, [])"
| "removeFromNodes w t (node # nodes) a =
     (case removeChunk w t node a of
        Some err \<Rightarrow> (Some err, Suc t, [Remove node (Some err)])
      | None \<Rightarrow>
          (case removeFromNodes w (Suc t) nodes a of
             (r, t', tr) \<Rightarrow> (r, t', Remove node None # tr)))"

definition deleteChunkFromAllNodes ::
  "repair_world \<Rightarrow> nat \<Rightarrow> chunk \<Rightarrow> error option \<times> nat \<times> repair_event list" where
  "deleteChunkFromAllNodes w t c =
     (case nodesClients w t of
        Inl err \<Rightarrow> (Some (Wrap ''get nodes clients: '' err), Suc t, [NodesClients (Inl err)])
      | Inr nodes \<Rightarrow>
          (case removeFromNodes w (Suc t) nodes (chunkAddress c) of
             (r, t', tr) \<Rightarrow> (r, t', NodesClients (Inr nodes) # tr)))"

text \<open>\<open>uploadAndPinChunkToNode\<close>: \<open>UploadChunk\<close> without pinning, then \<open>PinRootHash\<close>.\<close>

definition uploadAndPinChunkToNode ::
  "repair_world \<Rightarrow> nat \<Rightarrow> string \<Rightarrow> chunk \<Rightarrow> error option \<times> nat \<times> repair_event list" where
  "uploadAndPinChunkToNode w t node c =
     (case uploadChunk w t node (chunkData c) of
        Inl err \<Rightarrow> (Some err, Suc t, [Reupload node (Some err)])
      | Inr ref \<Rightarrow>
          (case pinRootHash w (Suc t) node ref of
             r \<Rightarrow> (r, Suc (Suc t), [Reupload node None, PinRootHash node r])))"

text \<open>
  \<open>fmt.Sprintf("download chunk %s: try again later", chunk.Address().String())\<close>.
\<close>

definition errMessage :: "chunk \<Rightarrow> string" where
  "errMessage c = ''download chunk '' @ hexString (chunkAddress c) @ '': try again later''"

text \<open>
  \<open>Run\<close> from \<open>uploadAndPinChunkToNode(ctx, nodeA, chunk)\<close> to the end of the
  iteration.
\<close>

definition reuploadAndPoll ::
  "repair_world \<Rightarrow> nat \<Rightarrow> string \<Rightarrow> string \<Rightarrow> chunk
     \<Rightarrow> repair_step \<times> nat \<times> repair_event list" where
  "reuploadAndPoll w t nodeA nodeC c =
     (case uploadAndPinChunkToNode w t nodeA c of
        (Some e, t1, tr1) \<Rightarrow> (Failed e, t1, tr1)
      | (None, t1, tr1) \<Rightarrow>
          (case pollRecoveredOnC w t1 0 nodeC c of
             (Some e, t2, tr2) \<Rightarrow> (Failed e, t2, tr1 @ tr2)
           | (None, t2, tr2) \<Rightarrow> (Completed, t2, tr1 @ tr2)))"

text \<open>
  \<open>Run\<close> from the download that triggers recovery on: the origin hint
  \<open>addressA.String()[0:2]\<close> (a panic on a string shorter than two characters), the
  download, and \<open>if err != nil && err.Error() != errMessage\<close>.
\<close>

definition recoverAfterDelete ::
  "repair_world \<Rightarrow> nat \<Rightarrow> string \<Rightarrow> string \<Rightarrow> address \<Rightarrow> chunk
     \<Rightarrow> repair_step \<times> nat \<times> repair_event list" where
  "recoverAfterDelete w t nodeA nodeC addressA c =
     (if length (hexString addressA) < 2 then (Panicked, t, [])
      else
        let hint = take 2 (hexString addressA);
            err = (case downloadChunk w t nodeC (chunkAddress c) hint of
                     Inl e \<Rightarrow> Some e | Inr data2 \<Rightarrow> None);
            proceed = (case reuploadAndPoll w (Suc t) nodeA nodeC c of
                         (r, t', tr) \<Rightarrow> (r, t', Download nodeC hint err # tr))
        in
        case err of
          None \<Rightarrow> proceed
        | Some e \<Rightarrow>
            if message e \<noteq> errMessage c
              then (Failed (Wrap ''chunk recovery not triggered: '' e), Suc t,
                    [Download nodeC hint err])
            else proceed)"

text \<open>
  \<open>Run\<close> after the first polling loop: download from C and compare, delete from all
  nodes, then the recovery part.
\<close>

definition afterPresentOnB ::
  "repair_world \<Rightarrow> nat \<Rightarrow> string \<Rightarrow> string \<Rightarrow> address \<Rightarrow> address \<Rightarrow> chunk
     \<Rightarrow> repair_step \<times> nat \<times> repair_event list" where
  "afterPresentOnB w t nodeA nodeC addressA ref c =
     (case downloadChunk w t nodeC ref [] of
        Inl err \<Rightarrow> (Failed err, Suc t, [Download nodeC [] (Some err)])
      | Inr data1 \<Rightarrow>
          if data1 \<noteq> chunkData c
            then (Failed (Err ''chunk downloaded in NodeC does not have proper data''), Suc t,
                  [Download nodeC [] None])
          else
            (case deleteChunkFromAllNodes w (Suc t) c of
               (Some e, t1, tr1) \<Rightarrow> (Failed e, t1, Download nodeC [] None # tr1)
             | (None, t1, tr1) \<Rightarrow>
                 (case recoverAfterDelete w t1 nodeA nodeC addressA c of
                    (r, t2, tr2) \<Rightarrow> (r, t2, Download nodeC [] None # tr1 @ tr2))))"

text \<open>One pass through the body of \<open>for i := 0; i < o.NumberOfChunksToRepair; i++\<close>.\<close>

definition repairIteration ::
  "nat \<Rightarrow> repair_world \<Rightarrow> nat \<Rightarrow> nat \<Rightarrow> (repair_step \<times> nat \<times> repair_event list) option" where
  "repairIteration fuel w i t =
     (case getNodesResult w i of
        Inl err \<Rightarrow> Some (Failed err, t, [])
      | Inr (nodeA, nodeB, nodeC, c) \<Rightarrow>
          (case overlay w t nodeA of
             Inl err \<Rightarrow> Some (Failed err, Suc t, [])
           | Inr addressA \<Rightarrow>
               (case createPostageBatch w (Suc t) nodeA of
                  Inl err \<Rightarrow> Some (Failed (Wrap ''created batched id '' err), Suc (Suc t), [])
                | Inr batchID \<Rightarrow>
                    (case uploadChunk w (Suc (Suc t)) nodeA (chunkData c) of
                       Inl err \<Rightarrow> Some (Failed err, Suc (Suc (Suc t)), [])
                     | Inr ref \<Rightarrow>
                         (case pollPresentOnB fuel w (Suc (Suc (Suc t))) 0 nodeB ref of
                            None \<Rightarrow> None
                          | Some (Some e, t1, tr1) \<Rightarrow> Some (Failed e, t1, tr1)
                          | Some (None, t1, tr1) \<Rightarrow>
                              (case afterPresentOnB w t1 nodeA nodeC addressA ref c of
                                 (r, t2, tr2) \<Rightarrow> Some (r, t2, tr1 @ tr2)))))))"

text \<open>
  The loop over the chunks to repair and \<open>Run\<close> itself; an iteration that returns an
  error ends the run with it.
\<close>

fun repairLoop ::
  "nat \<Rightarrow> repair_world \<Rightarrow> nat \<Rightarrow> nat \<Rightarrow> nat \<Rightarrow> (outcome \<times> repair_event list) option" where
  "repairLoop fuel w i 0 t = Some (Return None, [])"
| "repairLoop fuel w i (Suc remaining) t =
     (case repairIteration fuel w i t of
        None \<Rightarrow> None
      | Some (Failed e, t', tr) \<Rightarrow> Some (Return (Some e), tr)
      | Some (Panicked, t', tr) \<Rightarrow> Some (Panic, tr)
      | Some (Completed, t', tr) \<Rightarrow>
          (case repairLoop fuel w (Suc i) remaining t' of
             None \<Rightarrow> None
           | Some (out, tr') \<Rightarrow> Some (out, tr @ tr')))"

definition repairRun :: "nat \<Rightarrow> repair_world \<Rightarrow> (outcome \<times> repair_event list) option" where
  "repairRun fuel w =
     (case nodeGroupError w of
        Some err \<Rightarrow> Some (Return (Some err), [])
      | None \<Rightarrow> repairLoop fuel w 0 (numberOfChunksToRepair w) 0)"

subsection \<open>A concrete node group\<close>

text \<open>
  Three nodes and one chunk. Uploads return the data as the address and plain downloads
  return the addressed bytes. Three things vary: what \<open>HasChunk\<close> answers, the node
  (if any) on which \<open>RemoveChunk\<close> fails, and what the download with an origin hint
  returns.
\<close>

definition demoChunk :: chunk where
  "demoChunk = \<lparr> chunkData = [0x2A], chunkAddress = [0x2A] \<rparr>"

definition repairWorld :: "error + bool \<Rightarrow> string \<Rightarrow> error + byte list \<Rightarrow> repair_world" where
  "repairWorld answer badNode trigger =
     \<lparr> nodeGroupError = None,
       numberOfChunksToRepair = 1,
       getNodesResult = (\<lambda>i. Inr (''bee-0'', ''bee-1'', ''bee-2'', demoChunk)),
       overlay = (\<lambda>t node. Inr [0x10]),
       createPostageBatch = (\<lambda>t node. Inr ''batch''),
       uploadChunk = (\<lambda>t node d. Inr d),
       hasChunk = (\<lambda>t node a. answer),
       downloadChunk = (\<lambda>t node a hint. if hint = [] then Inr a else trigger),
       nodesClients = (\<lambda>t. Inr [''bee-0'', ''bee-1'', ''bee-2'']),
       removeChunk = (\<lambda>t node a. if node = badNode then Some (Err ''remove failed'') else None),
       pinRootHash = (\<lambda>t node a. None) \<rparr>"

subsection \<open>Predicates on iterations\<close>

fun isRemove :: "repair_event \<Rightarrow> bool" where
  "isRemove (Remove node r) = True"
| "isRemove e = False"

fun isReupload :: "repair_event \<Rightarrow> bool" where
  "isReupload (Reupload node r) = True"
| "isReupload e = False"

fun isNodesClients :: "repair_event \<Rightarrow> bool" where
  "isNodesClients (NodesClients r) = True"
| "isNodesClients e = False"

section \<open>ReplicationCheck: \<open>checkLightChunks\<close> of package pushsync\<close>













section \<open>Seeded chunks in RecoveryCheck and ReplicationCheck\<close>

text \<open>
  Package \<open>random\<close> (\<open>PseudoGenerators\<close>) and package \<open>bee\<close> (\<open>NewRandomChunk\<close>,
  \<open>Chunk.SetAddress\<close>, \<open>Chunk.ClosestNodeFromMap\<close>) are called by \<open>Run\<close>,
  \<open>getNodes\<close> and \<open>checkLightChunks\<close> but are not among the sources. Here they are
  parameters: \<open>pseudoGenerators seed count\<close> is the slice of generators,
  \<open>newRandomChunk\<close> draws a chunk from a generator and gives the generator back
  advanced, \<open>setAddress\<close> gives the chunk with its address set, and
  \<open>closestNodeFromMap\<close> answers for a chunk, an overlay map and the peers to skip.
  Nothing is assumed about them beyond their being functions of these arguments.
\<close>

record 'g chunk_source =
  pseudoGenerators :: "int \<Rightarrow> nat \<Rightarrow> 'g list"
  newRandomChunk :: "'g \<Rightarrow> (error + chunk) \<times> 'g"
  setAddress :: "chunk \<Rightarrow> error + chunk"
  closestNodeFromMap ::
    "chunk \<Rightarrow> overlays \<Rightarrow> address list \<Rightarrow> string \<times> address \<times> error option"

text \<open>
  \<open>getRandomChunkAndClosestNode\<close>: the result, the chunks that \<open>NewRandomChunk\<close>
  returned (none or one), and the generator afterwards.
\<close>

definition getRandomChunkAndClosestNode ::
  "'g chunk_source \<Rightarrow> overlays \<Rightarrow> 'g \<Rightarrow> (error + (address \<times> chunk)) \<times> chunk list \<times> 'g" where
  "getRandomChunkAndClosestNode src overlays rnd =
     (case newRandomChunk src rnd of
        (Inl err, rnd') \<Rightarrow> (Inl err, [], rnd')
      | (Inr chunk0, rnd') \<Rightarrow>
          (case setAddress src chunk0 of
             Inl err \<Rightarrow> (Inl err, [chunk0], rnd')
           | Inr c \<Rightarrow>
               (case closestNodeFromMap src c overlays [] of
                  (name, closestAddress, Some err) \<Rightarrow> (Inl err, [chunk0], rnd')
                | (name, closestAddress, None) \<Rightarrow> (Inr (closestAddress, c), [chunk0], rnd'))))"

text \<open>
  The loop \<open>for { ... }\<close> of \<open>getNodes\<close> that finds node B. It has no bound of its
  own, so the model counts passes down from \<open>fuel\<close>; the result \<open>None\<close> is a loop
  that has not ended within \<open>fuel\<close> passes. The second component lists every chunk
  drawn, in order.
\<close>

fun findNodeB ::
  "nat \<Rightarrow> 'g chunk_source \<Rightarrow> overlays \<Rightarrow> address \<Rightarrow> address \<Rightarrow> 'g
     \<Rightarrow> (error + (address \<times> chunk)) option \<times> chunk list" where
  "findNodeB 0 src overlays overlayA overlayC rnd = (None, [])"
| "findNodeB (Suc fuel) src overlays overlayA overlayC rnd =
     (case getRandomChunkAndClosestNode src overlays rnd of
        (Inl err, drawn, rnd') \<Rightarrow> (Some (Inl err), drawn)
      | (Inr (closestOverlay, c), drawn, rnd') \<Rightarrow>
          if closestOverlay = overlayA
            then (case findNodeB fuel src overlays overlayA overlayC rnd' of
                    (r, drawn') \<Rightarrow> (r, drawn @ drawn'))
          else if closestOverlay = overlayC
            then (case findNodeB fuel src overlays overlayA overlayC rnd' of
                    (r, drawn') \<Rightarrow> (r, drawn @ drawn'))
          else (Some (Inr (closestOverlay, c)), drawn))"

text \<open>
  \<open>for _, node := range nodesClients\<close> at the end of \<open>getNodes\<close>: each client comes
  with the answer of its \<open>Addresses\<close> call; a client variable that is never assigned
  stays \<open>nil\<close> (\<open>None\<close>).
\<close>

fun matchNodes ::
  "(string \<times> (error + address)) list \<Rightarrow> address \<Rightarrow> address \<Rightarrow> address
     \<Rightarrow> string option \<times> string option \<times> string option
     \<Rightarrow> error + (string option \<times> string option \<times> string option)" where
  "matchNodes [] overlayA overlayB overlayC found = Inr found"
| "matchNodes ((node, Inl err) # rest) overlayA overlayB overlayC found = Inl err"
| "matchNodes ((node, Inr ov) # rest) overlayA overlayB overlayC (nodeA, nodeB, nodeC) =
     matchNodes rest overlayA overlayB overlayC
       (if ov = overlayA then Some node else nodeA,
        if ov = overlayB then Some node else nodeB,
        if ov = overlayC then Some node else nodeC)"

text \<open>
  What the node group answers to \<open>getNodes\<close>: \<open>Overlays\<close> (the overlay map as handed
  to \<open>ClosestNodeFromMap\<close>), \<open>Size\<close>, the orders of the two \<open>range\<close> loops of
  \<open>findFarthestNodes\<close> over that map, and \<open>NodesClients\<close> in the order of its
  \<open>range\<close>, each client with the answer of \<open>Addresses\<close>.
\<close>

record node_group =
  ngOverlays :: "error + overlays"
  ngSize :: nat
  ngOuter :: overlays
  ngInner :: "nat \<Rightarrow> overlays"
  ngNodesClients :: "error + (string \<times> (error + address)) list"

text \<open>
  The result of \<open>getNodes\<close>: an error, or the three clients and the chunk. The third
  case is the panic of \<open>rnds[i]\<close> in \<open>Run\<close> on a slice that is too short.
\<close>

datatype nodes_result =
    NodesFailed error
  | Nodes "string option" "string option" "string option" chunk
  | NoGenerator

definition getNodes ::
  "nat \<Rightarrow> 'g chunk_source \<Rightarrow> node_group \<Rightarrow> 'g \<Rightarrow> nodes_result option \<times> chunk list" where
  "getNodes fuel src ng rnd =
     (case ngOverlays ng of
        Inl err \<Rightarrow> (Some (NodesFailed err), [])
      | Inr overlays \<Rightarrow>
          if ngSize ng < minNodesRequired then (Some (NodesFailed errLessNodesForTest), [])
          else case findFarthestNodes (ngOuter ng) (ngInner ng) of
              Inl err \<Rightarrow> (Some (NodesFailed err), [])
            | Inr (overlayA, overlayC) \<Rightarrow>
                (case findNodeB fuel src overlays overlayA overlayC rnd of
                   (None, drawn) \<Rightarrow> (None, drawn)
                 | (Some (Inl err), drawn) \<Rightarrow> (Some (NodesFailed err), drawn)
                 | (Some (Inr (overlayB, c)), drawn) \<Rightarrow>
                     (case ngNodesClients ng of
                        Inl err \<Rightarrow> (Some (NodesFailed (Wrap ''get nodes clients: '' err)), drawn)
                      | Inr clients \<Rightarrow>
                          (case matchNodes clients overlayA overlayB overlayC (None, None, None) of
                             Inl err \<Rightarrow> (Some (NodesFailed err), drawn)
                           | Inr (nodeA, nodeB, nodeC) \<Rightarrow>
                               (Some (Nodes nodeA nodeB nodeC c), drawn)))))"

text \<open>
  \<open>Run\<close> of package chunkrepair, iteration \<open>i\<close>:
  \<open>rnds := random.PseudoGenerators(o.Seed, o.NumberOfChunksToRepair)\<close> and
  \<open>getNodes(ctx, ng, rnds[i], c.logger)\<close>. In \<open>repair_world\<close> the field
  \<open>getNodesResult\<close> stands for the result of this call.
\<close>

definition getNodesInRun ::
  "nat \<Rightarrow> 'g chunk_source \<Rightarrow> node_group \<Rightarrow> int \<Rightarrow> nat \<Rightarrow> nat
     \<Rightarrow> nodes_result option \<times> chunk list" where
  "getNodesInRun fuel src ng seed numberOfChunks i =
     (let rnds = pseudoGenerators src seed numberOfChunks
      in if length rnds \<le> i then (Some NoGenerator, [])
         else getNodes fuel src ng (rnds ! i))"

text \<open>The first \<open>m\<close> chunks a generator yields, up to the first failing draw.\<close>

fun drawSeq :: "'g chunk_source \<Rightarrow> 'g \<Rightarrow> nat \<Rightarrow> chunk list" where
  "drawSeq src rnd 0 = []"
| "drawSeq src rnd (Suc m) =
     (case newRandomChunk src rnd of
        (Inl err, rnd') \<Rightarrow> []
      | (Inr c, rnd') \<Rightarrow> c # drawSeq src rnd' m)"

subsection \<open>The loops of \<open>checkLightChunks\<close>\<close>

text \<open>
  The cluster and the options as \<open>checkLightChunks\<close> sees them:
  \<open>cluster.LightNodeNames\<close>, \<open>o.UploadNodeCount\<close>, \<open>o.ChunksPerNode\<close>,
  \<open>cluster.FlattenOverlays\<close>, the names with a client in \<open>cluster.NodesClients\<close>,
  \<open>GetOrCreateBatch\<close> on a node, the \<open>n\<close>-th \<open>UploadChunk\<close> of chunk \<open>j\<close> on a
  node, and how the test case of chunk \<open>j\<close> of a node ends once the closest node is
  known: a replica was found (\<open>continue testCases\<close>), the chunk was not found in the
  closest node, it was not replicated, or a name had no client (a panic). That last
  part, the \<open>HasChunk\<close> tries on the closest node and the replica scan, is
  \<open>checkReplication\<close> of the previous section; here only its result matters.
\<close>

datatype test_case_end = FoundReplica | MissingInClosest | MissingReplica | NoClient

record light_world =
  lightNodeNames :: "string list"
  uploadNodeCount :: nat
  chunksPerNode :: nat
  flattenOverlaysResult :: "error + overlays"
  nodesClientsResult :: "error + string list"
  getOrCreateBatch :: "string \<Rightarrow> error + string"
  uploadChunkTo :: "string \<Rightarrow> nat \<Rightarrow> nat \<Rightarrow> byte list \<Rightarrow> error + address"
  replicationEnds :: "string \<Rightarrow> nat \<Rightarrow> address \<Rightarrow> test_case_end"

text \<open>A chunk drawn for an uploader, and the closest node found for a chunk.\<close>

datatype light_event = Drawn string chunk | Closest string address

text \<open>
  \<open>for i := 0; i < 3; i++ { ref, err = uploader.UploadChunk(...); if err == nil { break } ... }\<close>:
  \<open>ref\<close> and \<open>err\<close> as the loop leaves them.
\<close>

fun uploadTries ::
  "light_world \<Rightarrow> string \<Rightarrow> nat \<Rightarrow> byte list \<Rightarrow> nat \<Rightarrow> nat \<Rightarrow> error + address
     \<Rightarrow> error + address" where
  "uploadTries w nodeName j d 0 n result = result"
| "uploadTries w nodeName j d (Suc tries) n result =
     (case uploadChunkTo w nodeName j n d of
        Inr ref \<Rightarrow> Inr ref
      | Inl err \<Rightarrow> uploadTries w nodeName j d tries (Suc n) (Inl err))"

text \<open>One test case either goes on with the advanced generator or ends the run.\<close>

datatype 'g light_step = Next 'g | Done outcome

text \<open>\<open>return fmt.Errorf("node %s: %w", nodeName, err)\<close>.\<close>

definition nodeError :: "string \<Rightarrow> error \<Rightarrow> outcome" where
  "nodeError nodeName err = Return (Some (Wrap (''node '' @ nodeName @ '': '') err))"

text \<open>
  The body of \<open>for j := 0; j < o.ChunksPerNode; j++\<close>: the chunk from \<open>rnds[i]\<close>,
  its upload, its closest node, and the end of the test case.
\<close>

definition lightChunk ::
  "'g chunk_source \<Rightarrow> light_world \<Rightarrow> overlays \<Rightarrow> string \<Rightarrow> nat \<Rightarrow> 'g
     \<Rightarrow> 'g light_step \<times> light_event list" where
  "lightChunk src w overlays nodeName j rnd =
     (case newRandomChunk src rnd of
        (Inl err, rnd') \<Rightarrow> (Done (nodeError nodeName err), [])
      | (Inr c, rnd') \<Rightarrow>
          (case uploadTries w nodeName j (chunkData c) 3 0 (Inr ZeroAddress) of
             Inl err \<Rightarrow> (Done (nodeError nodeName err), [Drawn nodeName c])
           | Inr ref \<Rightarrow>
               (case closestNodeFromMap src c overlays [] of
                  (closestName, closestAddress, Some err) \<Rightarrow>
                    (Done (nodeError nodeName err), [Drawn nodeName c])
                | (closestName, closestAddress, None) \<Rightarrow>
                    (case replicationEnds w nodeName j ref of
                       FoundReplica \<Rightarrow> Next rnd'
                     | NoClient \<Rightarrow> Done Panic
                     | MissingInClosest \<Rightarrow>
                         Done (Return (Some (Err (''node '' @ nodeName @ '' chunk ''
                                 @ hexString ref @ '' not found in the closest node ''
                                 @ hexString closestAddress))))
                     | MissingReplica \<Rightarrow>
                         Done (Return (Some (Err (''node '' @ nodeName @ '' chunk ''
                                 @ hexString ref @ '' not replicated'')))),
                     [Drawn nodeName c, Closest closestName closestAddress]))))"

text \<open>
  The loop over the chunks of one uploader; \<open>None\<close> when all its chunks passed.
\<close>

fun lightChunks ::
  "'g chunk_source \<Rightarrow> light_world \<Rightarrow> overlays \<Rightarrow> string \<Rightarrow> nat \<Rightarrow> nat \<Rightarrow> 'g
     \<Rightarrow> outcome option \<times> light_event list" where
  "lightChunks src w overlays nodeName 0 j rnd = (None, [])"
| "lightChunks src w overlays nodeName (Suc remaining) j rnd =
     (case lightChunk src w overlays nodeName j rnd of
        (Done out, tr) \<Rightarrow> (Some out, tr)
      | (Next rnd', tr) \<Rightarrow>
          (case lightChunks src w overlays nodeName remaining (Suc j) rnd' of
             (r, tr') \<Rightarrow> (r, tr @ tr')))"

text \<open>
  \<open>for i, nodeName := range cluster.LightNodeNames()\<close>: the \<open>break\<close> at
  \<open>o.UploadNodeCount\<close>, the uploader (a panic on a name without a client), its batch,
  and its chunks from \<open>rnds[i]\<close> (a panic on a slice that is too short).
\<close>

fun lightNodes ::
  "'g chunk_source \<Rightarrow> light_world \<Rightarrow> 'g list \<Rightarrow> overlays \<Rightarrow> string list \<Rightarrow> string list \<Rightarrow> nat
     \<Rightarrow> outcome \<times> light_event list" where
  "lightNodes src w rnds overlays clients [] i = (Return None, [])"
| "lightNodes src w rnds overlays clients (nodeName # rest) i =
     (if uploadNodeCount w \<le> i then (Return None, [])
      else if nodeName \<notin> set clients then (Panic, [])
      else case getOrCreateBatch w nodeName of
          Inl err \<Rightarrow> (Return (Some (Wrap (''node '' @ nodeName @ '': batch id '') err)), [])
        | Inr batchID \<Rightarrow>
            if 0 < chunksPerNode w \<and> length rnds \<le> i then (Panic, [])
            else
              (case lightChunks src w overlays nodeName (chunksPerNode w) 0 (rnds ! i) of
                 (Some out, tr) \<Rightarrow> (out, tr)
               | (None, tr) \<Rightarrow>
                   (case lightNodes src w rnds overlays clients rest (Suc i) of
                      (r, tr') \<Rightarrow> (r, tr @ tr'))))"

definition checkLightChunks ::
  "'g chunk_source \<Rightarrow> light_world \<Rightarrow> int \<Rightarrow> outcome \<times> light_event list" where
  "checkLightChunks src w seed =
     (let rnds = pseudoGenerators src seed (uploadNodeCount w)
      in case flattenOverlaysResult w of
           Inl err \<Rightarrow> (Return (Some err), [])
         | Inr overlays \<Rightarrow>
             (case nodesClientsResult w of
                Inl err \<Rightarrow> (Return (Some err), [])
              | Inr clients \<Rightarrow> lightNodes src w rnds overlays clients (lightNodeNames w) 0))"

text \<open>
  The chunks of one uploader with their closest nodes, and those of all uploaders, as the
  generators and the overlays alone give them: \<open>chunkDraws\<close> also says whether every
  draw and every \<open>closestNodeFromMap\<close> succeeded.
\<close>

fun chunkDraws ::
  "'g chunk_source \<Rightarrow> overlays \<Rightarrow> string \<Rightarrow> nat \<Rightarrow> 'g \<Rightarrow> light_event list \<times> bool" where
  "chunkDraws src overlays nodeName 0 rnd = ([], True)"
| "chunkDraws src overlays nodeName (Suc remaining) rnd =
     (case newRandomChunk src rnd of
        (Inl err, rnd') \<Rightarrow> ([], False)
      | (Inr c, rnd') \<Rightarrow>
          (case closestNodeFromMap src c overlays [] of
             (closestName, closestAddress, Some err) \<Rightarrow> ([Drawn nodeName c], False)
           | (closestName, closestAddress, None) \<Rightarrow>
               (case chunkDraws src overlays nodeName remaining rnd' of
                  (tr, ok) \<Rightarrow> (Drawn nodeName c # Closest closestName closestAddress # tr, ok))))"

fun nodeDraws ::
  "'g chunk_source \<Rightarrow> 'g list \<Rightarrow> overlays \<Rightarrow> nat \<Rightarrow> nat \<Rightarrow> string list \<Rightarrow> nat
     \<Rightarrow> light_event list" where
  "nodeDraws src rnds overlays perNode nodeCount [] i = []"
| "nodeDraws src rnds overlays perNode nodeCount (nodeName # rest) i =
     (if nodeCount \<le> i then []
      else if 0 < perNode \<and> length rnds \<le> i then []
      else case chunkDraws src overlays nodeName perNode (rnds ! i) of
          (tr, True) \<Rightarrow> tr @ nodeDraws src rnds overlays perNode nodeCount rest (Suc i)
        | (tr, False) \<Rightarrow> tr)"

definition seededDraws :: "'g chunk_source \<Rightarrow> light_world \<Rightarrow> int \<Rightarrow> light_event list" where
  "seededDraws src w seed =
     (case flattenOverlaysResult w of
        Inl err \<Rightarrow> []
      | Inr overlays \<Rightarrow>
          nodeDraws src (pseudoGenerators src seed (uploadNodeCount w)) overlays
            (chunksPerNode w) (uploadNodeCount w) (lightNodeNames w) 0)"

subsection \<open>A concrete generator, node group and light cluster\<close>

text \<open>
  Generators that count: the \<open>i\<close>-th generator of a seed starts at \<open>seed + 16 * i\<close>,
  a draw gives the one-byte chunk of the counter, which is also its address. The closest
  node is answered for a chunk whose address is the overlay address of a node that is not
  skipped: it is that node, at distance 0.
\<close>

definition byteChunk :: "nat \<Rightarrow> chunk" where
  "byteChunk n = \<lparr> chunkData = [of_nat n], chunkAddress = [of_nat n] \<rparr>"

definition countingChunks :: "nat chunk_source" where
  "countingChunks =
     \<lparr> pseudoGenerators = (\<lambda>seed n. map (\<lambda>i. nat seed + 16 * i) [0..<n]),
       newRandomChunk = (\<lambda>g. (Inr (byteChunk g), Suc g)),
       setAddress = (\<lambda>c. Inr c),
       closestNodeFromMap =
         (\<lambda>c overlays skipNodes.
            case find (\<lambda>(name, a). a = chunkAddress c \<and> a \<notin> set skipNodes) overlays of
              Some (name, a) \<Rightarrow> (name, a, None)
            | None \<Rightarrow> ([], ZeroAddress, Some (Err ''no node at the chunk address''))) \<rparr>"

text \<open>
  Four nodes in which two pairs are farthest apart, visited by the \<open>range\<close> loops in the
  given order.
\<close>

definition fourNodes :: overlays where
  "fourNodes = [(''n0'', [0x00]), (''n1'', [0x01]), (''n2'', [0xFE]), (''n3'', [0xFF])]"

definition fourNodeGroup :: "overlays \<Rightarrow> node_group" where
  "fourNodeGroup order =
     \<lparr> ngOverlays = Inr fourNodes,
       ngSize = 4,
       ngOuter = order,
       ngInner = fixedOrder order,
       ngNodesClients = Inr (map (\<lambda>(name, a). (name, Inr a)) fourNodes) \<rparr>"

text \<open>
  One light node that uploads two chunks to the four nodes; every test case ends as
  given.
\<close>

definition lightCluster :: "test_case_end \<Rightarrow> light_world" where
  "lightCluster result =
     \<lparr> lightNodeNames = [''light-0''],
       uploadNodeCount = 1,
       chunksPerNode = 2,
       flattenOverlaysResult = Inr fourNodes,
       nodesClientsResult = Inr (''light-0'' # map fst fourNodes),
       getOrCreateBatch = (\<lambda>nodeName. Inr ''batch''),
       uploadChunkTo = (\<lambda>nodeName j n d. Inr d),
       replicationEnds = (\<lambda>nodeName j ref. result) \<rparr>"

section \<open>Verified properties\<close>

subsection \<open>Facts about the distance\<close>

lemma distanceRaw_map2:
  "length x = length y \<Longrightarrow> distanceRaw x y = Inr (map2 (XOR) x y)"
  by (auto simp: distanceRaw_def intro!: nth_equalityI)

lemma SetBytes_from_zero_iff:
  "SetBytes_from acc bs = 0 \<longleftrightarrow> acc = 0 \<and> (\<forall>b \<in> set bs. b = 0)"
proof (induction bs arbitrary: acc)
  case Nil
  show ?case by simp
next
  case (Cons b bs)
  show ?case by (auto simp: Cons.IH unat_eq_0)
qed

lemma SetBytes_zero_iff: "SetBytes bs = 0 \<longleftrightarrow> (\<forall>b \<in> set bs. b = 0)"
  by (simp add: SetBytes_def SetBytes_from_zero_iff)

lemma xor_byte_zero_iff: "(a :: byte) XOR b = 0 \<longleftrightarrow> a = b"
  by (metis bit.xor_self xor.assoc xor.left_neutral xor.right_neutral)

lemma map2_xor_zero_iff:
  "length x = length y \<Longrightarrow> (\<forall>b \<in> set (map2 (XOR) x y). b = (0::byte)) \<longleftrightarrow> x = y"
proof (induction x y rule: list_induct2)
  case Nil
  show ?case by simp
next
  case (Cons a x b y)
  then show ?case by (auto simp: xor_byte_zero_iff)
qed

lemma distance_eq_length:
  "length x = length y \<Longrightarrow> distance x y = Inr (SetBytes (map2 (XOR) x y))"
  by (simp add: distance_def distanceRaw_map2)

lemma map2_xor_commute: "map2 (XOR) x y = map2 (XOR) y (x :: byte list)"
proof (induction x arbitrary: y)
  case Nil
  show ?case by simp
next
  case (Cons a x)
  show ?case by (cases y) (simp_all add: Cons.IH xor.commute)
qed

lemma distance_commute: "distance x y = distance y x"
proof (cases "length x = length y")
  case True
  then show ?thesis by (simp add: distance_eq_length map2_xor_commute)
next
  case False
  then show ?thesis by (auto simp: distance_def distanceRaw_def)
qed

lemma distance_zero_iff:
  "length x = length y \<Longrightarrow> distance x y = Inr 0 \<longleftrightarrow> x = y"
proof -
  assume len: "length x = length y"
  have "distance x y = Inr 0 \<longleftrightarrow> SetBytes (map2 (XOR) x y) = 0"
    by (simp only: distance_eq_length [OF len] sum.inject)
  also have "\<dots> \<longleftrightarrow> (\<forall>b \<in> set (map2 (XOR) x y). b = 0)"
    by (rule SetBytes_zero_iff)
  also have "\<dots> \<longleftrightarrow> x = y"
    by (rule map2_xor_zero_iff [OF len])
  finally show ?thesis .
qed

lemma distance_mismatch:
  "length x \<noteq> length y \<Longrightarrow> distance x y = Inl errAddressLength"
  by (simp add: distance_def distanceRaw_def)

subsection \<open>Facts about the farthest pair\<close>

lemma distance_xorValue: "length x = length y \<Longrightarrow> distance x y = Inr (xorValue x y)"
  by (simp add: distance_eq_length xorValue_def)

lemma farthest_inner_ok:
  assumes "length a = n" and "\<forall>c \<in> snd ` set cs. length c = n"
  shows "\<exists>d' A' C'. farthest_inner a cs (d, A, C) = Inr (d', A', C') \<and> d \<le> d'
           \<and> (\<forall>c \<in> snd ` set cs. xorValue a c \<le> d')
           \<and> ((d', A', C') = (d, A, C) \<or>
               (A' = a \<and> C' \<in> snd ` set cs \<and> xorValue A' C' = d' \<and> d < d'))"
  using assms
proof (induction cs arbitrary: d A C)
  case Nil
  show ?case by simp
next
  case (Cons p cs)
  obtain name c where p: "p = (name, c)" by (cases p)
  have lc: "length c = n" using Cons.prems p by simp
  have rest: "\<forall>c \<in> snd ` set cs. length c = n" using Cons.prems by simp
  have dac: "distance a c = Inr (xorValue a c)"
    using distance_xorValue Cons.prems(1) lc by simp
  show ?case
  proof (cases "a = c")
    case True
    have z: "xorValue a c = 0"
      using distance_zero_iff [of a c] dac True by simp
    from Cons.IH [OF Cons.prems(1) rest, of d A C]
    show ?thesis using p True z by auto
  next
    case False
    show ?thesis
    proof (cases "xorValue a c > d")
      case True
      from Cons.IH [OF Cons.prems(1) rest, of "xorValue a c" a c]
      show ?thesis using p False True dac by (fastforce intro: rev_image_eqI)
    next
      case F2: False
      from Cons.IH [OF Cons.prems(1) rest, of d A C]
      show ?thesis using p False F2 dac by (fastforce intro: rev_image_eqI)
    qed
  qed
qed


lemma farthest_outer_ok:
  assumes "\<forall>a \<in> S. length a = n"
    and "snd ` set as \<subseteq> S"
    and "\<forall>j. k \<le> j \<and> j < k + length as \<longrightarrow> snd ` set (inner j) = S"
    and "farthest_inv S st"
  shows "\<exists>st'. farthest_outer k as inner st = Inr st' \<and> fst st \<le> fst st'
           \<and> (\<forall>a \<in> snd ` set as. \<forall>c \<in> S. xorValue a c \<le> fst st')
           \<and> farthest_inv S st'"
  using assms
proof (induction as arbitrary: k st)
  case Nil
  then show ?case by simp
next
  case (Cons p as)
  obtain name a where p: "p = (name, a)" by (cases p)
  obtain d A C where st: "st = (d, A, C)" by (cases st)
  have aS: "a \<in> S" using Cons.prems(2) p by simp
  have la: "length a = n" using Cons.prems(1) aS by simp
  have ik: "snd ` set (inner k) = S" using Cons.prems(3) by simp
  have lk: "\<forall>c \<in> snd ` set (inner k). length c = n"
    using ik Cons.prems(1) by simp
  from farthest_inner_ok [OF la lk, of d A C]
  obtain d1 A1 C1 where
    r1: "farthest_inner a (inner k) (d, A, C) = Inr (d1, A1, C1)" and
    m1: "d \<le> d1" and
    b1: "\<forall>c \<in> snd ` set (inner k). xorValue a c \<le> d1" and
    c1: "(d1, A1, C1) = (d, A, C) \<or>
         (A1 = a \<and> C1 \<in> snd ` set (inner k) \<and> xorValue A1 C1 = d1 \<and> d < d1)"
    by blast
  have inv1: "farthest_inv S (d1, A1, C1)"
    using c1 Cons.prems(4) st aS ik by (auto simp: farthest_inv_def)
  have sub: "snd ` set as \<subseteq> S" using Cons.prems(2) by simp
  have rng: "\<forall>j. Suc k \<le> j \<and> j < Suc k + length as \<longrightarrow> snd ` set (inner j) = S"
    using Cons.prems(3) by simp
  from Cons.IH [OF Cons.prems(1) sub rng inv1]
  obtain st' where
    r2: "farthest_outer (Suc k) as inner (d1, A1, C1) = Inr st'" and
    m2: "d1 \<le> fst st'" and
    b2: "\<forall>a \<in> snd ` set as. \<forall>c \<in> S. xorValue a c \<le> fst st'" and
    inv2: "farthest_inv S st'"
    by auto
  have run: "farthest_outer k (p # as) inner st = Inr st'"
    using p st r1 r2 by simp
  have mono: "fst st \<le> fst st'" using st m1 m2 by simp
  have bound: "\<forall>x \<in> snd ` set (p # as). \<forall>c \<in> S. xorValue x c \<le> fst st'"
  proof (intro ballI)
    fix x c assume x: "x \<in> snd ` set (p # as)" and c: "c \<in> S"
    show "xorValue x c \<le> fst st'"
    proof (cases "x = a")
      case True
      have "xorValue a c \<le> d1" using b1 c ik by simp
      then show ?thesis using True m2 by simp
    next
      case False
      then have "x \<in> snd ` set as" using x p by auto
      then show ?thesis using b2 c by blast
    qed
  qed
  show ?case using run mono bound inv2 by blast
qed

lemma bruteForceFarthest_Max:
  "bruteForceFarthest as = Max (insert 0 {xorValue x y | x y. x \<in> set as \<and> y \<in> set as})"
proof -
  let ?l = "concat (map (\<lambda>x. map (xorValue x) as) as)"
  have "bruteForceFarthest as = Max (set (0 # ?l))"
    by (simp only: bruteForceFarthest_def Max.set_eq_fold)
  moreover have "set (0 # ?l) = insert 0 {xorValue x y | x y. x \<in> set as \<and> y \<in> set as}"
    by auto
  ultimately show ?thesis by simp
qed

lemma xorValue_self: "xorValue x x = 0"
  using distance_zero_iff [of x x] distance_xorValue [of x x] by simp

lemma findFarthestNodes_max:
  assumes len: "\<forall>a \<in> snd ` set outer. length a = n"
    and inn: "\<forall>j < length outer. snd ` set (inner j) = snd ` set outer"
  shows "\<exists>A C. findFarthestNodes outer inner = Inr (A, C)
           \<and> distance A C = Inr (bruteForceFarthest (map snd outer))
           \<and> ((\<exists>x \<in> snd ` set outer. \<exists>y \<in> snd ` set outer. x \<noteq> y)
                \<longrightarrow> A \<in> snd ` set outer \<and> C \<in> snd ` set outer \<and> A \<noteq> C)"
proof -
  define S where "S = snd ` set outer"
  have lenS: "\<forall>a \<in> S. length a = n" using len by (simp only: S_def)
  have sub: "snd ` set outer \<subseteq> S" by (simp only: S_def subset_refl)
  have i0: "farthest_inv S (0, ZeroAddress, ZeroAddress)"
    by (simp add: farthest_inv_def)
  have rng: "\<forall>j. 0 \<le> j \<and> j < 0 + length outer \<longrightarrow> snd ` set (inner j) = S"
    using inn by (simp add: S_def)
  from farthest_outer_ok [OF lenS sub rng i0]
  obtain st' where
    run: "farthest_outer 0 outer inner (0, ZeroAddress, ZeroAddress) = Inr st'" and
    bound0: "\<forall>a \<in> snd ` set outer. \<forall>c \<in> S. xorValue a c \<le> fst st'" and
    inv: "farthest_inv S st'"
    by blast
  obtain d A C where st': "st' = (d, A, C)" by (cases st')
  have bound: "\<And>x y. x \<in> S \<Longrightarrow> y \<in> S \<Longrightarrow> xorValue x y \<le> d"
    using bound0 st' unfolding S_def by (metis fst_conv)
  have res: "findFarthestNodes outer inner = Inr (A, C)"
    using run st' by (simp add: findFarthestNodes_def)
  have cases_d: "(d = 0 \<and> A = ZeroAddress \<and> C = ZeroAddress) \<or>
                 (0 < d \<and> A \<in> S \<and> C \<in> S \<and> xorValue A C = d)"
    using inv st' by (simp add: farthest_inv_def)
  let ?V = "insert 0 {xorValue x y | x y. x \<in> S \<and> y \<in> S}"
  have finS: "finite S" by (simp add: S_def)
  have fin: "finite ?V"
    using finS by (intro finite.insertI finite_image_set2) simp_all
  have mem: "d \<in> ?V"
    using cases_d by auto
  have ub: "\<And>v. v \<in> ?V \<Longrightarrow> v \<le> d"
    using bound by auto
  have mx: "Max ?V = d"
    by (rule Max_eqI [OF fin ub mem])
  have bf: "bruteForceFarthest (map snd outer) = d"
    using mx by (simp add: bruteForceFarthest_Max S_def)
  have dAC: "distance A C = Inr d"
  proof (cases "d = 0")
    case True
    then have "A = []" "C = []" using cases_d by (simp_all add: ZeroAddress_def)
    then show ?thesis
      using True by (simp add: distance_def distanceRaw_def SetBytes_def)
  next
    case False
    then have A: "A \<in> S" and C: "C \<in> S" and v: "xorValue A C = d"
      using cases_d by simp_all
    have "length A = n" "length C = n" using lenS A C by blast+
    then show ?thesis using distance_xorValue [of A C] v by simp
  qed
  have two: "(\<exists>x \<in> S. \<exists>y \<in> S. x \<noteq> y) \<longrightarrow> A \<in> S \<and> C \<in> S \<and> A \<noteq> C"
  proof
    assume "\<exists>x \<in> S. \<exists>y \<in> S. x \<noteq> y"
    then obtain x y where x: "x \<in> S" and y: "y \<in> S" and ne: "x \<noteq> y" by blast
    have "length x = n" "length y = n" using lenS x y by blast+
    then have lxy: "length x = length y" by simp
    have "xorValue x y \<noteq> 0"
      using distance_zero_iff [OF lxy] distance_xorValue [OF lxy] ne by simp
    moreover have "xorValue x y \<le> d" using bound x y by simp
    ultimately have "0 < d" by simp
    then have "A \<in> S" "C \<in> S" "xorValue A C = d" "0 < d"
      using cases_d by simp_all
    then show "A \<in> S \<and> C \<in> S \<and> A \<noteq> C" using xorValue_self [of A] by auto
  qed
  show ?thesis using res dAC bf two unfolding S_def by blast
qed


lemma farthest_inner_all_equal:
  "\<forall>c \<in> snd ` set cs. c = a \<Longrightarrow> farthest_inner a cs st = Inr st"
proof (induction cs)
  case Nil
  show ?case by simp
next
  case (Cons p cs)
  obtain name c where p: "p = (name, c)" by (cases p)
  obtain d A C where st: "st = (d, A, C)" by (cases st)
  have "c = a" using Cons.prems p by simp
  moreover have "farthest_inner a cs st = Inr st" using Cons by simp
  ultimately show ?case using p st by simp
qed

lemma farthest_outer_all_equal:
  assumes "\<forall>a \<in> snd ` set as. a = x"
    and "\<forall>j. k \<le> j \<and> j < k + length as \<longrightarrow> (\<forall>c \<in> snd ` set (inner j). c = x)"
  shows "farthest_outer k as inner st = Inr st"
  using assms
proof (induction as arbitrary: k)
  case Nil
  show ?case by simp
next
  case (Cons p as)
  obtain name a where p: "p = (name, a)" by (cases p)
  have ax: "a = x" using Cons.prems(1) p by simp
  have "\<forall>c \<in> snd ` set (inner k). c = x"
    using Cons.prems(2) [rule_format, of k] by simp
  then have r1: "farthest_inner a (inner k) st = Inr st"
    using ax farthest_inner_all_equal [of "inner k" a st] by simp
  have "\<forall>a \<in> snd ` set as. a = x" using Cons.prems(1) by simp
  moreover have "\<forall>j. Suc k \<le> j \<and> j < Suc k + length as
                   \<longrightarrow> (\<forall>c \<in> snd ` set (inner j). c = x)"
  proof (intro allI impI)
    fix j assume "Suc k \<le> j \<and> j < Suc k + length as"
    then have "k \<le> j \<and> j < k + length (p # as)" by simp
    then show "\<forall>c \<in> snd ` set (inner j). c = x"
      using Cons.prems(2) by blast
  qed
  ultimately have r2: "farthest_outer (Suc k) as inner st = Inr st"
    by (rule Cons.IH)
  show ?case using p r1 r2 by simp
qed

lemma findFarthestNodes_all_equal:
  assumes "\<forall>a \<in> snd ` set outer. a = x"
    and "\<forall>j < length outer. snd ` set (inner j) = snd ` set outer"
  shows "findFarthestNodes outer inner = Inr (ZeroAddress, ZeroAddress)"
proof -
  have "\<forall>j. 0 \<le> j \<and> j < 0 + length outer \<longrightarrow> (\<forall>c \<in> snd ` set (inner j). c = x)"
    using assms by simp
  from farthest_outer_all_equal [OF assms(1) this]
  show ?thesis by (simp add: findFarthestNodes_def)
qed

subsection \<open>Facts about \<open>Perm\<close> and the RoundTripCheck run\<close>

lemma perm_loop_inv:
  assumes "i + r = length m" and "mset (take i m) = mset [0..<i]"
  shows "length (fst (perm_loop src r i m g)) = length m
         \<and> mset (fst (perm_loop src r i m g)) = mset [0..<length m]"
  using assms
proof (induction r arbitrary: i m g)
  case 0
  then show ?case by simp
next
  case (Suc r)
  obtain j g' where jg: "Intn src g (i + 1) = (j, g')" by (cases "Intn src g (i + 1)")
  have jle: "j \<le> i"
    using jg by (auto simp: Intn_def split: prod.splits)
  have il: "i < length m" using Suc.prems(1) by simp
  let ?m' = "m[i := m ! j, j := i]"
  have len: "length ?m' = length m" by simp
  have step: "mset (take (Suc i) ?m') = mset [0..<Suc i]"
  proof (cases "j = i")
    case True
    then have "?m' = m[i := i]" by simp
    then have "take (Suc i) ?m' = take i m @ [i]"
      using il by (simp add: take_Suc_conv_app_nth)
    then show ?thesis using Suc.prems(2) by simp
  next
    case False
    then have jl: "j < i" using jle by simp
    have t1: "take (Suc i) (m[i := m ! j]) = take i m @ [m ! j]"
      using il by (simp add: take_Suc_conv_app_nth)
    have "take (Suc i) ?m' = (take (Suc i) (m[i := m ! j]))[j := i]"
      by (rule take_update_swap)
    also have "\<dots> = (take i m @ [m ! j])[j := i]"
      by (simp only: t1)
    also have "\<dots> = (take i m)[j := i] @ [m ! j]"
      using il jl by (simp add: list_update_append1)
    finally have t: "take (Suc i) ?m' = (take i m)[j := i] @ [m ! j]" .
    have "take i m ! j \<in> set (take i m)"
      by (rule nth_mem) (use jl il in simp)
    then have jin: "take i m ! j \<in># mset (take i m)"
      by simp
    have "mset ((take i m)[j := i]) = add_mset i (mset (take i m) - {#take i m ! j#})"
      using jl il by (simp add: mset_update)
    then have "mset (take (Suc i) ?m') = add_mset (m ! j) (add_mset i (mset (take i m) - {#take i m ! j#}))"
      using t by simp
    also have "\<dots> = add_mset i (mset (take i m))"
      using jin jl by (simp add: insert_DiffM)
    finally show ?thesis using Suc.prems(2) by simp
  qed
  have "Suc i + r = length ?m'" using Suc.prems(1) by simp
  from Suc.IH [OF this step, of g']
  show ?case using jg len by simp
qed

lemma Perm_permutation:
  "length (fst (Perm src g n)) = n \<and> mset (fst (Perm src g n)) = mset [0..<n]"
  using perm_loop_inv [of 0 n "replicate n 0" src g] by (simp add: Perm_def)

lemma Perm_distinct: "distinct (fst (Perm src g n))"
  using Perm_permutation [of src g n] mset_eq_imp_distinct_iff [of "fst (Perm src g n)" "[0..<n]"]
  by simp

lemma Perm_first_two:
  assumes "2 \<le> n"
  shows "fst (Perm src g n) ! 0 \<noteq> fst (Perm src g n) ! 1
         \<and> fst (Perm src g n) ! 0 < n \<and> fst (Perm src g n) ! 1 < n"
proof -
  define p where "p = fst (Perm src g n)"
  have l: "length p = n" using Perm_permutation [of src g n] by (simp add: p_def)
  have "set_mset (mset p) = set_mset (mset [0..<n])"
    using Perm_permutation [of src g n] by (simp only: p_def)
  then have s: "set p = {0..<n}" by simp
  have d: "distinct p" unfolding p_def by (rule Perm_distinct)
  have l0: "0 < length p" and l1: "1 < length p" using l assms by arith+
  have ne: "p ! 0 \<noteq> p ! 1"
    using nth_eq_iff_index_eq [OF d l0 l1] by simp
  have "p ! 0 \<in> set p" by (rule nth_mem [OF l0])
  then have b0: "p ! 0 < n" unfolding s by simp
  have "p ! 1 \<in> set p" by (rule nth_mem [OF l1])
  then have b1: "p ! 1 < n" unfolding s by simp
  show ?thesis using ne b0 b1 unfolding p_def by blast
qed

lemma guarded_quiet_append:
  "quiet xs \<Longrightarrow> (\<And>q. guarded q ys) \<Longrightarrow> guarded p (xs @ ys)"
  by (induction xs arbitrary: p) (auto simp: quiet_def)

lemma uploadAttempt_event:
  "uploadAttempt w i n txName txData = (ev, a, d) \<Longrightarrow> \<exists>e. ev = UploadAttempt e"
  by (auto simp: uploadAttempt_def split: sum.splits prod.splits)

lemma downloadAttempt_quiet:
  "downloadAttempt w i n rxName a txData = (err, report, d, m) \<Longrightarrow> quiet report"
  by (auto simp: downloadAttempt_def quiet_def split: sum.splits prod.splits if_splits)

lemma uploadLoop_trace:
  "uploadLoop w i txName txData r k a d = (res, k', tr)
   \<Longrightarrow> filter isRole tr = [] \<and> guarded p tr \<and> firedLast tr
       \<and> ((\<exists>e \<in> set tr. isFired e) \<longleftrightarrow> res = None)"
proof (induction r arbitrary: k a d res k' tr p)
  case 0
  then show ?case by auto
next
  case (Suc r)
  show ?case
  proof (cases "d \<noteq> 0 \<or> ctxDone w k")
    case True
    then show ?thesis using Suc.prems by (auto split: if_splits)
  next
    case False
    obtain ev a1 d1 where A: "uploadAttempt w i (3 - Suc r) txName txData = (ev, a1, d1)"
      by (cases "uploadAttempt w i (3 - Suc r) txName txData")
    obtain e where ev: "ev = UploadAttempt e" using uploadAttempt_event [OF A] by blast
    obtain res1 k1 tr1 where
      R: "uploadLoop w i txName txData r (Suc k) a1 d1 = (res1, k1, tr1)"
      by (cases "uploadLoop w i txName txData r (Suc k) a1 d1")
    have tr: "tr = Check UploadRetry False # UploadAttempt e # tr1" and res: "res = res1"
      using Suc.prems False A R ev by simp_all
    from Suc.IH [OF R, of "Some (UploadAttempt e)"]
    show ?thesis using tr res by auto
  qed
qed

lemma downloadLoop_trace:
  "downloadLoop w i rxName a txData r k d = (c, k', tr)
   \<Longrightarrow> filter isRole tr = [] \<and> guarded p tr \<and> firedLast tr
       \<and> ((\<exists>e \<in> set tr. isFired e) \<longleftrightarrow> c)"
proof (induction r arbitrary: k d c k' tr p)
  case 0
  then show ?case by auto
next
  case (Suc r)
  show ?case
  proof (cases "d \<noteq> 0 \<or> ctxDone w k")
    case True
    then show ?thesis using Suc.prems by (auto split: if_splits)
  next
    case False
    obtain err report d1 m where
      A: "downloadAttempt w i (3 - Suc r) rxName a txData = (err, report, d1, m)"
      by (cases "downloadAttempt w i (3 - Suc r) rxName a txData")
    have q: "quiet report" using downloadAttempt_quiet [OF A] .
    show ?thesis
    proof (cases m)
      case True
      then have tr: "tr = Check DownloadRetry False # DownloadAttempt err # report" and c: "\<not> c"
        using Suc.prems False A by simp_all
      have "guarded (Some (DownloadAttempt err)) (report @ [])"
        by (rule guarded_quiet_append [OF q]) simp
      moreover have "firedLast report" using q by (induction report) (auto simp: quiet_def)
      ultimately show ?thesis using tr c q by (auto simp: quiet_def filter_empty_conv)
    next
      case F: False
      obtain c1 k1 tr1 where
        R: "downloadLoop w i rxName a txData r (Suc k) d1 = (c1, k1, tr1)"
        by (cases "downloadLoop w i rxName a txData r (Suc k) d1")
      have tr: "tr = Check DownloadRetry False # DownloadAttempt err # report @ tr1"
        and c: "c = c1"
        using Suc.prems False A R F by simp_all
      have ihg: "\<And>q. guarded q tr1"
        using Suc.IH [OF R] by blast
      have ih: "filter isRole tr1 = []" "firedLast tr1" "(\<exists>e \<in> set tr1. isFired e) \<longleftrightarrow> c1"
        using Suc.IH [OF R, of None] by blast+
      have g: "guarded (Some (DownloadAttempt err)) (report @ tr1)"
        by (rule guarded_quiet_append [OF q]) (rule ihg)
      have f: "firedLast (report @ tr1)"
        using q ih(2) by (induction report) (auto simp: quiet_def)
      show ?thesis using tr c q ih g f by (auto simp: quiet_def filter_empty_conv)
    qed
  qed
qed


lemma guarded_append:
  "guarded q xs \<Longrightarrow> (\<And>q'. guarded q' ys) \<Longrightarrow> guarded q (xs @ ys)"
  by (induction xs arbitrary: q) auto

lemma firedLast_append:
  "\<forall>e \<in> set xs. \<not> isFired e \<Longrightarrow> firedLast ys \<Longrightarrow> firedLast (xs @ ys)"
  by (induction xs) auto

lemma segOK_Nil: "segOK [] False"
  by (simp add: segOK_def)

lemma segOK_append: "segOK xs False \<Longrightarrow> segOK ys c \<Longrightarrow> segOK (xs @ ys) c"
  by (auto simp: segOK_def guarded_append firedLast_append)

lemma segOK_Payload: "segOK tr c \<Longrightarrow> segOK (Payload d # tr) c"
  by (auto simp: segOK_def)

lemma uploadLoop_segOK:
  "uploadLoop w i txName txData r k a d = (res, k', tr) \<Longrightarrow> segOK tr (res = None)"
  using uploadLoop_trace [of w i txName txData r k a d res k' tr] by (simp add: segOK_def)

lemma downloadLoop_segOK:
  "downloadLoop w i rxName a txData r k d = (c, k', tr) \<Longrightarrow> segOK tr c"
  using downloadLoop_trace [of w i rxName a txData r k d c k' tr] by (simp add: segOK_def)

lemma afterSelect_ok:
  assumes "afterSelect w i g' k txIdx rxIdx = (st, rest)"
  shows "segOK rest (st = Stop (Return None))
         \<and> (st = Stop (Return None) \<or> (\<exists>k'. st = Continue g' k'))"
proof (cases "cryptoRead w i")
  case (Inl err)
  then show ?thesis using assms by (auto simp: afterSelect_def segOK_Nil)
next
  case (Inr txData)
  obtain r k' tr where
    U: "uploadLoop w i (nodeNames w ! txIdx) txData 3 (Suc k) ZeroAddress 0 = (r, k', tr)"
    by (cases "uploadLoop w i (nodeNames w ! txIdx) txData 3 (Suc k) ZeroAddress 0")
  note u = uploadLoop_segOK [OF U]
  show ?thesis
  proof (cases r)
    case None
    then have "st = Stop (Return None)" "rest = Payload txData # tr"
      using assms Inr U by (simp_all add: afterSelect_def)
    then show ?thesis using u None by (simp add: segOK_Payload)
  next
    case (Some ad)
    obtain address txDuration where ad: "ad = (address, txDuration)" by (cases ad)
    have u': "segOK tr False" using u Some by simp
    show ?thesis
    proof (cases "txDuration = 0")
      case True
      then have "st = Continue g' k'" "rest = Payload txData # tr"
        using assms Inr U Some ad by (simp_all add: afterSelect_def)
      then show ?thesis using u' by (simp add: segOK_Payload)
    next
      case False
      obtain c k'' tr' where
        D: "downloadLoop w i (nodeNames w ! rxIdx) address txData 3 k' 0 = (c, k'', tr')"
        by (cases "downloadLoop w i (nodeNames w ! rxIdx) address txData 3 k' 0")
      note d = downloadLoop_segOK [OF D]
      have rest: "rest = Payload txData # tr @ tr'"
        and st: "st = (if c then Stop (Return None) else Continue g' k'')"
        using assms Inr U Some ad False D by (cases c; simp add: afterSelect_def)+
      have "segOK (tr @ tr') c" using u' d by (rule segOK_append)
      then have "segOK rest c" using rest by (simp add: segOK_Payload)
      then show ?thesis using st by (cases c) auto
    qed
  qed
qed

lemma smokeIteration_ok:
  assumes "smokeIteration w i g k = (st, tr)"
  shows "filter isRole tr =
           (if ctxDone w k then []
            else case roleDraw (source w) (clusterSize w) (length (nodeNames w)) g of
                   None \<Rightarrow> [] | Some ev \<Rightarrow> [ev])
         \<and> guarded q tr \<and> firedLast tr
         \<and> ((\<exists>e \<in> set tr. isFired e) \<longleftrightarrow> st = Stop (Return None))
         \<and> (\<forall>g' k'. st = Continue g' k' \<longrightarrow>
               g' = snd (Perm (source w) g (clusterSize w)) \<and> \<not> ctxDone w k
               \<and> roleDraw (source w) (clusterSize w) (length (nodeNames w)) g \<noteq> None)"
proof (cases "ctxDone w k")
  case True
  then show ?thesis using assms by (auto simp: smokeIteration_def)
next
  case False
  obtain perm g1 where P: "Perm (source w) g (clusterSize w) = (perm, g1)"
    by (cases "Perm (source w) g (clusterSize w)")
  show ?thesis
  proof (cases "length perm < 2 \<or> perm ! 0 = perm ! 1
                \<or> length (nodeNames w) \<le> perm ! 0 \<or> length (nodeNames w) \<le> perm ! 1")
    case True
    then show ?thesis
      using assms False P by (auto simp: smokeIteration_def roleDraw_def split: if_splits)
  next
    case F: False
    obtain st1 rest where A: "afterSelect w i g1 k (perm ! 0) (perm ! 1) = (st1, rest)"
      by (cases "afterSelect w i g1 k (perm ! 0) (perm ! 1)")
    have st: "st = st1" and tr: "tr = Check IterationTop False # Selected (perm ! 0) (perm ! 1) # rest"
      using assms False P F A by (simp_all add: smokeIteration_def)
    from afterSelect_ok [OF A]
    have ok: "segOK rest (st1 = Stop (Return None))"
      and shape: "st1 = Stop (Return None) \<or> (\<exists>k'. st1 = Continue g1 k')"
      by blast+
    have roles: "roleDraw (source w) (clusterSize w) (length (nodeNames w)) g
                 = Some (Selected (perm ! 0) (perm ! 1))"
      using P F by (simp add: roleDraw_def)
    show ?thesis
      using st tr ok shape roles False P by (auto simp: segOK_def)
  qed
qed

lemma smokeRunLoop_ok:
  "smokeRunLoop fuel w i g k = (r, tr)
   \<Longrightarrow> prefix (filter isRole tr)
         (rolesSeq (source w) (clusterSize w) (length (nodeNames w)) g fuel)
       \<and> guarded q tr \<and> firedLast tr
       \<and> ((\<exists>e \<in> set tr. isFired e) \<longleftrightarrow> r = Some (Return None))"
proof (induction fuel arbitrary: i g k r tr q)
  case 0
  then show ?case by simp
next
  case (Suc fuel)
  let ?R = "rolesSeq (source w) (clusterSize w) (length (nodeNames w))"
  let ?D = "roleDraw (source w) (clusterSize w) (length (nodeNames w))"
  obtain st tr1 where I: "smokeIteration w i g k = (st, tr1)" by (cases "smokeIteration w i g k")
  note ok = smokeIteration_ok [OF I, of q]
  have pre1: "prefix (filter isRole tr1) (?R g (Suc fuel))"
    using ok by (auto split: option.splits)
  show ?case
  proof (cases st)
    case (Stop out)
    then have "r = Some out" "tr = tr1" using Suc.prems I by simp_all
    then show ?thesis using ok pre1 Stop by auto
  next
    case (Continue g' k')
    obtain r2 tr2 where R: "smokeRunLoop fuel w (Suc i) g' k' = (r2, tr2)"
      by (cases "smokeRunLoop fuel w (Suc i) g' k'")
    have r: "r = r2" and tr: "tr = tr1 @ tr2" using Suc.prems I Continue R by simp_all
    have g': "g' = snd (Perm (source w) g (clusterSize w))"
      and nd: "\<not> ctxDone w k" and ne: "?D g \<noteq> None"
      using ok Continue by blast+
    have nf: "\<forall>e \<in> set tr1. \<not> isFired e" using ok Continue by auto
    have ihg: "\<And>q'. guarded q' tr2" using Suc.IH [OF R] by blast
    have ih: "prefix (filter isRole tr2) (?R g' fuel)" "firedLast tr2"
      "(\<exists>e \<in> set tr2. isFired e) \<longleftrightarrow> r2 = Some (Return None)"
      using Suc.IH [OF R, of None] by blast+
    obtain ev where one: "?D g = Some ev" using ne by blast
    have f1: "filter isRole tr1 = [ev]" using ok nd one by simp
    have "?R g (Suc fuel) = ev # ?R g' fuel"
      using one g' by simp
    then have pre: "prefix (filter isRole tr) (?R g (Suc fuel))"
      using tr f1 ih(1) by simp
    have gd: "guarded q tr" using tr ok ihg by (auto intro: guarded_append)
    have fl: "firedLast tr" using tr nf ih(2) by (auto intro: firedLast_append)
    show ?thesis using pre gd fl r tr nf ih(3) by auto
  qed
qed


lemma uploadLoop_counter:
  "uploadLoop w i txName txData r k a d = (res, k', tr)
   \<Longrightarrow> k \<le> k' \<and> (res \<noteq> None \<longrightarrow> (\<forall>j. k \<le> j \<and> j < k' \<longrightarrow> \<not> ctxDone w j))"
proof (induction r arbitrary: k a d res k' tr)
  case 0
  then show ?case by auto
next
  case (Suc r)
  show ?case
  proof (cases "d \<noteq> 0 \<or> ctxDone w k")
    case True
    then show ?thesis using Suc.prems by (auto split: if_splits)
  next
    case False
    obtain ev a1 d1 where A: "uploadAttempt w i (3 - Suc r) txName txData = (ev, a1, d1)"
      by (cases "uploadAttempt w i (3 - Suc r) txName txData")
    obtain res1 k1 tr1 where
      R: "uploadLoop w i txName txData r (Suc k) a1 d1 = (res1, k1, tr1)"
      by (cases "uploadLoop w i txName txData r (Suc k) a1 d1")
    have e: "res = res1" "k' = k1" using Suc.prems False A R by simp_all
    have ih: "Suc k \<le> k1" "res1 \<noteq> None \<longrightarrow> (\<forall>j. Suc k \<le> j \<and> j < k1 \<longrightarrow> \<not> ctxDone w j)"
      using Suc.IH [OF R] by blast+
    have "\<not> ctxDone w j" if "res \<noteq> None" "k \<le> j" "j < k'" for j
    proof (cases "j = k")
      case True
      then show ?thesis using False by simp
    next
      case F: False
      then have "Suc k \<le> j" using that by simp
      then show ?thesis using ih(2) that e by simp
    qed
    then show ?thesis using ih(1) e by auto
  qed
qed

lemma downloadLoop_counter:
  "downloadLoop w i rxName a txData r k d = (c, k', tr)
   \<Longrightarrow> k \<le> k' \<and> (\<not> c \<longrightarrow> (\<forall>j. k \<le> j \<and> j < k' \<longrightarrow> \<not> ctxDone w j))"
proof (induction r arbitrary: k d c k' tr)
  case 0
  then show ?case by auto
next
  case (Suc r)
  show ?case
  proof (cases "d \<noteq> 0 \<or> ctxDone w k")
    case True
    then show ?thesis using Suc.prems by (auto split: if_splits)
  next
    case False
    obtain err report d1 m where
      A: "downloadAttempt w i (3 - Suc r) rxName a txData = (err, report, d1, m)"
      by (cases "downloadAttempt w i (3 - Suc r) rxName a txData")
    show ?thesis
    proof (cases m)
      case True
      then have "k' = Suc k" using Suc.prems False A by simp
      then show ?thesis using False by (auto simp: less_Suc_eq_le)
    next
      case F: False
      obtain c1 k1 tr1 where
        R: "downloadLoop w i rxName a txData r (Suc k) d1 = (c1, k1, tr1)"
        by (cases "downloadLoop w i rxName a txData r (Suc k) d1")
      have e: "c = c1" "k' = k1" using Suc.prems False A R F by simp_all
      have ih: "Suc k \<le> k1" "\<not> c1 \<longrightarrow> (\<forall>j. Suc k \<le> j \<and> j < k1 \<longrightarrow> \<not> ctxDone w j)"
        using Suc.IH [OF R] by blast+
      have "\<not> ctxDone w j" if "\<not> c" "k \<le> j" "j < k'" for j
      proof (cases "j = k")
        case True
        then show ?thesis using False by simp
      next
        case F2: False
        then have "Suc k \<le> j" using that by simp
        then show ?thesis using ih(2) that e by simp
      qed
      then show ?thesis using ih(1) e by auto
    qed
  qed
qed

lemma afterSelect_counter:
  assumes "afterSelect w i g' k txIdx rxIdx = (Continue g2 k2, rest)"
  shows "Suc k \<le> k2 \<and> (\<forall>j. Suc k \<le> j \<and> j < k2 \<longrightarrow> \<not> ctxDone w j)"
proof (cases "cryptoRead w i")
  case (Inl err)
  then show ?thesis using assms by (auto simp: afterSelect_def)
next
  case (Inr txData)
  obtain r k' tr where
    U: "uploadLoop w i (nodeNames w ! txIdx) txData 3 (Suc k) ZeroAddress 0 = (r, k', tr)"
    by (cases "uploadLoop w i (nodeNames w ! txIdx) txData 3 (Suc k) ZeroAddress 0")
  note u = uploadLoop_counter [OF U]
  show ?thesis
  proof (cases r)
    case None
    then show ?thesis using assms Inr U by (simp add: afterSelect_def)
  next
    case (Some ad)
    obtain address txDuration where ad: "ad = (address, txDuration)" by (cases ad)
    have u1: "Suc k \<le> k'" and u2: "\<forall>j. Suc k \<le> j \<and> j < k' \<longrightarrow> \<not> ctxDone w j"
      using u Some by simp_all
    show ?thesis
    proof (cases "txDuration = 0")
      case True
      then have "k2 = k'" using assms Inr U Some ad by (simp add: afterSelect_def)
      then show ?thesis using u1 u2 by simp
    next
      case False
      obtain c k'' tr' where
        D: "downloadLoop w i (nodeNames w ! rxIdx) address txData 3 k' 0 = (c, k'', tr')"
        by (cases "downloadLoop w i (nodeNames w ! rxIdx) address txData 3 k' 0")
      note d = downloadLoop_counter [OF D]
      have c: "\<not> c" and k2: "k2 = k''"
        using assms Inr U Some ad False D by (cases c; simp add: afterSelect_def)+
      have d1: "k' \<le> k''" and d2: "\<forall>j. k' \<le> j \<and> j < k'' \<longrightarrow> \<not> ctxDone w j"
        using d c by simp_all
      have "\<not> ctxDone w j" if "Suc k \<le> j" "j < k2" for j
        using that u2 d2 k2 by (cases "j < k'") auto
      then show ?thesis using u1 d1 k2 by auto
    qed
  qed
qed

lemma smokeIteration_counter:
  assumes "smokeIteration w i g k = (Continue g' k', tr)"
  shows "k < k' \<and> (\<forall>j. k \<le> j \<and> j < k' \<longrightarrow> \<not> ctxDone w j)"
proof -
  have nd: "\<not> ctxDone w k" using assms by (auto simp: smokeIteration_def split: if_splits)
  obtain perm g1 where P: "Perm (source w) g (clusterSize w) = (perm, g1)"
    by (cases "Perm (source w) g (clusterSize w)")
  have "Suc k \<le> k' \<and> (\<forall>j. Suc k \<le> j \<and> j < k' \<longrightarrow> \<not> ctxDone w j)"
  proof (cases "perm ! 0 = perm ! 1")
    case True
    then show ?thesis using assms nd P by (auto simp: smokeIteration_def split: if_splits)
  next
    case False
    obtain st1 rest where A: "afterSelect w i g1 k (perm ! 0) (perm ! 1) = (st1, rest)"
      by (cases "afterSelect w i g1 k (perm ! 0) (perm ! 1)")
    have "st1 = Continue g' k'"
      using assms nd P False A by (auto simp: smokeIteration_def split: if_splits)
    then show ?thesis using afterSelect_counter [of w i g1 k "perm ! 0" "perm ! 1" g' k' rest] A by simp
  qed
  moreover have "\<not> ctxDone w j" if "k \<le> j" "j < k'" "\<forall>j. Suc k \<le> j \<and> j < k' \<longrightarrow> \<not> ctxDone w j" for j
    using that nd by (cases "j = k") auto
  ultimately show ?thesis by auto
qed

lemma smokeIteration_no_panic:
  assumes "2 \<le> clusterSize w" and "clusterSize w \<le> length (nodeNames w)"
  shows "fst (smokeIteration w i g k) \<noteq> Stop Panic \<and> SamePeer \<notin> set (snd (smokeIteration w i g k))"
proof -
  obtain perm g1 where P: "Perm (source w) g (clusterSize w) = (perm, g1)"
    by (cases "Perm (source w) g (clusterSize w)")
  have l: "length perm = clusterSize w"
    using Perm_permutation [of "source w" g "clusterSize w"] P by simp
  have f: "perm ! 0 \<noteq> perm ! 1" "perm ! 0 < clusterSize w" "perm ! 1 < clusterSize w"
    using Perm_first_two [OF assms(1), of "source w" g] P by simp_all
  obtain st1 rest where A: "afterSelect w i g1 k (perm ! 0) (perm ! 1) = (st1, rest)"
    by (cases "afterSelect w i g1 k (perm ! 0) (perm ! 1)")
  have "st1 \<noteq> Stop Panic" using afterSelect_ok [OF A] by auto
  moreover have "SamePeer \<notin> set rest"
    using afterSelect_ok [OF A] by (auto simp: segOK_def filter_empty_conv)
  ultimately show ?thesis
    using P l f A assms by (auto simp: smokeIteration_def)
qed

lemma smokeRunLoop_live:
  assumes "ctxDone w K"
  shows "k \<le> K \<Longrightarrow> K < k + fuel \<Longrightarrow> fst (smokeRunLoop fuel w i g k) \<noteq> None"
proof (induction fuel arbitrary: i g k)
  case 0
  then show ?case by simp
next
  case (Suc fuel)
  obtain st tr1 where I: "smokeIteration w i g k = (st, tr1)" by (cases "smokeIteration w i g k")
  show ?case
  proof (cases st)
    case (Stop out)
    then show ?thesis using I by simp
  next
    case (Continue g' k')
    have c: "k < k'" "\<forall>j. k \<le> j \<and> j < k' \<longrightarrow> \<not> ctxDone w j"
      using smokeIteration_counter [of w i g k g' k' tr1] I Continue by simp_all
    have "k' \<le> K" using c(2) assms Suc.prems(1) by (meson not_le_imp_less)
    moreover have "K < k' + fuel" using c(1) Suc.prems(2) by simp
    ultimately have "fst (smokeRunLoop fuel w (Suc i) g' k') \<noteq> None" by (rule Suc.IH)
    then show ?thesis using I Continue by (auto split: prod.splits)
  qed
qed

lemma smokeRunLoop_no_panic:
  assumes "2 \<le> clusterSize w" and "clusterSize w \<le> length (nodeNames w)"
  shows "fst (smokeRunLoop fuel w i g k) \<noteq> Some Panic \<and> SamePeer \<notin> set (snd (smokeRunLoop fuel w i g k))"
proof (induction fuel arbitrary: i g k)
  case 0
  then show ?case by simp
next
  case (Suc fuel)
  obtain st tr1 where I: "smokeIteration w i g k = (st, tr1)" by (cases "smokeIteration w i g k")
  have np: "st \<noteq> Stop Panic" "SamePeer \<notin> set tr1"
    using smokeIteration_no_panic [OF assms, of i g k] I by simp_all
  show ?case
  proof (cases st)
    case (Stop out)
    then show ?thesis using I np by auto
  next
    case (Continue g' k')
    then show ?thesis using I np Suc.IH [of "Suc i" g' k'] by (auto split: prod.splits)
  qed
qed

lemma smokeIteration_no_same_peer:
  assumes "2 \<le> clusterSize w"
  shows "SamePeer \<notin> set (snd (smokeIteration w i g k))"
proof -
  obtain perm g1 where P: "Perm (source w) g (clusterSize w) = (perm, g1)"
    by (cases "Perm (source w) g (clusterSize w)")
  have f: "perm ! 0 \<noteq> perm ! 1"
    using Perm_first_two [OF assms(1), of "source w" g] P by simp
  obtain st1 rest where A: "afterSelect w i g1 k (perm ! 0) (perm ! 1) = (st1, rest)"
    by (cases "afterSelect w i g1 k (perm ! 0) (perm ! 1)")
  have "SamePeer \<notin> set rest"
    using afterSelect_ok [OF A] by (auto simp: segOK_def filter_empty_conv)
  then show ?thesis
    using P f A by (auto simp: smokeIteration_def)
qed

lemma smokeRunLoop_no_same_peer:
  assumes "2 \<le> clusterSize w"
  shows "SamePeer \<notin> set (snd (smokeRunLoop fuel w i g k))"
proof (induction fuel arbitrary: i g k)
  case 0
  then show ?case by simp
next
  case (Suc fuel)
  obtain st tr1 where I: "smokeIteration w i g k = (st, tr1)" by (cases "smokeIteration w i g k")
  have np: "SamePeer \<notin> set tr1"
    using smokeIteration_no_same_peer [OF assms, of i g k] I by simp
  show ?case
  proof (cases st)
    case (Stop out)
    then show ?thesis using I np by auto
  next
    case (Continue g' k')
    then show ?thesis using I np Suc.IH [of "Suc i" g' k'] by (auto split: prod.splits)
  qed
qed

lemma rolesSeq_mono:
  "m \<le> m' \<Longrightarrow> prefix (rolesSeq src n names g m) (rolesSeq src n names g m')"
proof (induction m arbitrary: g m')
  case 0
  then show ?case by simp
next
  case (Suc m)
  then obtain m1 where m': "m' = Suc m1" and le: "m \<le> m1" by (cases m') auto
  show ?case using Suc.IH [OF le] m' by (auto split: option.splits)
qed

lemma smokeRun_roles_prefix:
  "prefix (filter isRole (snd (smokeRun fuel w seed)))
     (rolesSeq (source w) (clusterSize w) (length (nodeNames w)) (pseudoGenerator w seed) fuel)"
proof (cases "nodesClientsError w")
  case None
  obtain r tr where R: "smokeRunLoop fuel w 0 (pseudoGenerator w seed) 0 = (r, tr)"
    by (cases "smokeRunLoop fuel w 0 (pseudoGenerator w seed) 0")
  from smokeRunLoop_ok [OF R, of None] show ?thesis using None R by (simp add: smokeRun_def)
next
  case (Some err)
  then show ?thesis by (simp add: smokeRun_def)
qed

lemma perfectNetwork_fields:
  "clusterSize (perfectNetwork e d) = 2"
  "source (perfectNetwork e d) = counterSource"
  "nodeNames (perfectNetwork e d) = [''bee-0'', ''bee-1'']"
  "ctxDone (perfectNetwork e d) = d"
  "nodesClientsError (perfectNetwork e d) = None"
  "pseudoGenerator (perfectNetwork e d) = nat"
  "cryptoRead (perfectNetwork e d) i = Inr e"
  "upload (perfectNetwork e d) i n name data = Inr (data, 1)"
  "download (perfectNetwork e d) i n name a = Inr (a, 1)"
  by (simp_all add: perfectNetwork_def)

lemma smokeIteration_outcome:
  "smokeIteration w i g k = (Stop out, tr) \<Longrightarrow> out = Return None \<or> out = Panic"
proof -
  assume I: "smokeIteration w i g k = (Stop out, tr)"
  obtain perm g1 where P: "Perm (source w) g (clusterSize w) = (perm, g1)"
    by (cases "Perm (source w) g (clusterSize w)")
  obtain st1 rest where A: "afterSelect w i g1 k (perm ! 0) (perm ! 1) = (st1, rest)"
    by (cases "afterSelect w i g1 k (perm ! 0) (perm ! 1)")
  have "st1 = Stop (Return None) \<or> (\<exists>k'. st1 = Continue g1 k')"
    using afterSelect_ok [OF A] by blast
  then show ?thesis
    using I P A by (auto simp: smokeIteration_def split: if_splits)
qed

lemma smokeRunLoop_outcome:
  "fst (smokeRunLoop fuel w i g k) = Some out \<Longrightarrow> out = Return None \<or> out = Panic"
proof (induction fuel arbitrary: i g k)
  case 0
  then show ?case by simp
next
  case (Suc fuel)
  obtain st tr1 where I: "smokeIteration w i g k = (st, tr1)" by (cases "smokeIteration w i g k")
  show ?case
  proof (cases st)
    case (Stop o1)
    then have "out = o1" using Suc.prems I by simp
    then show ?thesis using smokeIteration_outcome [of w i g k o1 tr1] I Stop by simp
  next
    case (Continue g' k')
    then have "fst (smokeRunLoop fuel w (Suc i) g' k') = Some out"
      using Suc.prems I by (auto split: prod.splits)
    then show ?thesis by (rule Suc.IH)
  qed
qed

lemma smokeRunLoop_returns_nil:
  assumes "ctxDone w K" and "2 \<le> clusterSize w" and "clusterSize w \<le> length (nodeNames w)"
  shows "fst (smokeRunLoop (Suc K) w 0 g 0) = Some (Return None)"
proof -
  have "fst (smokeRunLoop (Suc K) w 0 g 0) \<noteq> None"
    by (rule smokeRunLoop_live [OF assms(1)]) simp_all
  then obtain out where o: "fst (smokeRunLoop (Suc K) w 0 g 0) = Some out" by blast
  have "out \<noteq> Panic"
    using smokeRunLoop_no_panic [OF assms(2,3), of "Suc K" 0 g 0] o by auto
  then show ?thesis using smokeRunLoop_outcome [OF o] o by simp
qed

lemma perfect_run_trace:
  "smokeRun 3 (perfectNetwork [0x01] (doneFrom 2)) 7 =
     (Some (Return None),
      [Check IterationTop False, Selected 1 0, Payload [0x01],
       Check UploadRetry False, UploadAttempt None, Check DownloadRetry True])"
  by code_simp

lemma smokeIteration_top_query:
  "\<exists>st rest. smokeIteration w i g k = (st, Check IterationTop (ctxDone w k) # rest)
     \<and> (ctxDone w k \<longrightarrow> st = Stop (Return None) \<and> rest = [])"
  by (auto simp: smokeIteration_def split: prod.splits)

lemma uploadLoop_pass_query:
  "\<exists>res k' rest.
     uploadLoop w i txName txData (Suc retries) k address 0
       = (res, k', Check UploadRetry (ctxDone w k) # rest)
     \<and> (ctxDone w k \<longrightarrow> res = None \<and> rest = [])"
  by (auto split: prod.splits)

lemma downloadLoop_pass_query:
  "\<exists>res k' rest.
     downloadLoop w i rxName address txData (Suc retries) k 0
       = (res, k', Check DownloadRetry (ctxDone w k) # rest)
     \<and> (ctxDone w k \<longrightarrow> res \<and> rest = [])"
  by (auto split: prod.splits)

lemma afterSelect_upload_entry:
  assumes "cryptoRead w i = Inr txData"
  shows "\<exists>st rest. afterSelect w i g' k txIdx rxIdx
           = (st, Payload txData # Check UploadRetry (ctxDone w (Suc k)) # rest)
         \<and> (ctxDone w (Suc k) \<longrightarrow> st = Stop (Return None) \<and> rest = [])"
proof -
  obtain res k' rest where
    u: "uploadLoop w i (nodeNames w ! txIdx) txData (Suc 2) (Suc k) ZeroAddress 0
          = (res, k', Check UploadRetry (ctxDone w (Suc k)) # rest)"
       "ctxDone w (Suc k) \<longrightarrow> res = None \<and> rest = []"
    using uploadLoop_pass_query [of w i "nodeNames w ! txIdx" txData 2 "Suc k" ZeroAddress]
    by blast
  have e: "(3 :: nat) = Suc 2" by simp
  show ?thesis
    using assms u unfolding afterSelect_def e
    by (auto split: option.splits prod.splits bool.splits)
qed

lemma afterSelect_download_entry:
  assumes "cryptoRead w i = Inr txData"
    and "uploadLoop w i (nodeNames w ! txIdx) txData 3 (Suc k) ZeroAddress 0
           = (Some (a, d), k', tru)"
    and "d \<noteq> 0"
  shows "\<exists>st rest. afterSelect w i g' k txIdx rxIdx
           = (st, Payload txData # tru @ Check DownloadRetry (ctxDone w k') # rest)
         \<and> (ctxDone w k' \<longrightarrow> st = Stop (Return None) \<and> rest = [])"
proof -
  obtain res k'' rest where
    u: "downloadLoop w i (nodeNames w ! rxIdx) a txData (Suc 2) k' 0
          = (res, k'', Check DownloadRetry (ctxDone w k') # rest)"
       "ctxDone w k' \<longrightarrow> res \<and> rest = []"
    using downloadLoop_pass_query [of w i "nodeNames w ! rxIdx" a txData 2 k']
    by blast
  have e: "downloadLoop w i (nodeNames w ! rxIdx) a txData 3 k' 0
             = downloadLoop w i (nodeNames w ! rxIdx) a txData (Suc 2) k' 0"
    by (simp add: numeral_3_eq_3)
  show ?thesis
    using assms u unfolding afterSelect_def e
    by (cases res) auto
qed

subsection \<open>Facts about the RecoveryCheck run\<close>

lemma pollPresentOnB_stuck:
  assumes "\<forall>t. hasChunk w t nodeB ref = Inr False" and "cnt \<le> maxIterations"
  shows "pollPresentOnB fuel w t cnt nodeB ref = None"
  using assms
proof (induction fuel arbitrary: t)
  case 0
  show ?case by simp
next
  case (Suc fuel)
  have "pollPresentOnB fuel w (Suc t) cnt nodeB ref = None"
    using Suc.IH Suc.prems by blast
  then show ?case using Suc.prems by simp
qed

lemma repairRun_stuck: "repairRun fuel (repairWorld (Inr False) [] (Inr [])) = None"
proof -
  let ?w = "repairWorld (Inr False) [] (Inr [])"
  have h: "\<forall>t. hasChunk ?w t ''bee-1'' [0x2A] = Inr False"
    by (simp add: repairWorld_def)
  have p: "pollPresentOnB fuel ?w 3 0 ''bee-1'' [0x2A] = None"
    by (rule pollPresentOnB_stuck [OF h]) simp
  have it: "repairIteration fuel ?w 0 0 = None"
    using p by (simp add: repairIteration_def repairWorld_def demoChunk_def numeral_3_eq_3)
  show ?thesis using it by (simp add: repairRun_def repairWorld_def)
qed

lemma repairRun_eleven_attempts:
  "repairRun 12 (repairWorld (Inl (Err ''unreachable'')) [] (Inr [])) =
     Some (Return (Some (Err ''could not get chunk even after several attempts'')),
           concat (replicate 11 [HasChunk ''bee-1'' (Inl (Err ''unreachable'')), Sleep 100]))"
  by code_simp

lemma length_hexString: "length (hexString a) = 2 * length a"
  by (induction a) (simp_all add: hexString_def)

lemma pollPresentOnB_events:
  "pollPresentOnB fuel w t cnt nodeB ref = Some (r, t', tr)
   \<Longrightarrow> \<forall>e \<in> set tr. \<not> isRemove e \<and> \<not> isReupload e \<and> \<not> isNodesClients e"
proof (induction fuel arbitrary: t cnt r t' tr)
  case 0
  then show ?case by simp
next
  case (Suc fuel)
  show ?case
  proof (cases "cnt > maxIterations")
    case True
    then show ?thesis using Suc.prems by simp
  next
    case False
    show ?thesis
    proof (cases "hasChunk w t nodeB ref")
      case (Inl err)
      then obtain r1 t1 tr1 where
        R: "pollPresentOnB fuel w (Suc t) (cnt + 1) nodeB ref = Some (r1, t1, tr1)"
        and tr: "tr = HasChunk nodeB (Inl err) # Sleep 100 # tr1"
        using Suc.prems False by (auto split: option.splits)
      show ?thesis using Suc.IH [OF R] tr by simp
    next
      case (Inr present)
      show ?thesis
      proof (cases present)
        case True
        then show ?thesis using Suc.prems False Inr by auto
      next
        case F: False
        then obtain r1 t1 tr1 where
          R: "pollPresentOnB fuel w (Suc t) cnt nodeB ref = Some (r1, t1, tr1)"
          and tr: "tr = HasChunk nodeB (Inr False) # tr1"
          using Suc.prems False Inr by (auto split: option.splits)
        show ?thesis using Suc.IH [OF R] tr by simp
      qed
    qed
  qed
qed

lemma pollRecoveredOnC_events:
  "pollRecoveredOnC w t cnt nodeC c = (r, t', tr)
   \<Longrightarrow> \<forall>e \<in> set tr. \<not> isRemove e \<and> \<not> isReupload e \<and> \<not> isNodesClients e"
proof (induction w t cnt nodeC c arbitrary: r t' tr rule: pollRecoveredOnC.induct)
  case (1 w t cnt nodeC c)
  show ?case
  proof (cases "cnt > maxIterations")
    case True
    then show ?thesis using "1.prems" by (simp add: pollRecoveredOnC.simps [of w t cnt])
  next
    case False
    show ?thesis
    proof (cases "downloadChunk w t nodeC (chunkAddress c) []")
      case (Inl err)
      obtain r1 t1 tr1 where
        R: "pollRecoveredOnC w (Suc t) (cnt + 1) nodeC c = (r1, t1, tr1)"
        by (cases "pollRecoveredOnC w (Suc t) (cnt + 1) nodeC c")
      have tr: "tr = Download nodeC [] (Some err) # Sleep 1000 # tr1"
        using "1.prems" False Inl R by (simp add: pollRecoveredOnC.simps [of w t cnt])
      show ?thesis using "1.IH" [OF False Inl R] tr by simp
    next
      case (Inr data3)
      then show ?thesis
        using "1.prems" False
        by (auto simp: pollRecoveredOnC.simps [of w t cnt] split: if_splits)
    qed
  qed
qed

lemma removeFromNodes_trace:
  "removeFromNodes w t nodes a = (r, t', tr)
   \<Longrightarrow> (\<forall>e \<in> set tr. \<not> isReupload e \<and> \<not> isNodesClients e)
       \<and> (r = None \<longrightarrow> tr = map (\<lambda>node. Remove node None) nodes)
       \<and> (\<forall>node x. Remove node (Some x) \<in> set tr \<longrightarrow>
             r = Some x \<and> tr \<noteq> [] \<and> last tr = Remove node (Some x))"
proof (induction nodes arbitrary: t r t' tr)
  case Nil
  then show ?case by auto
next
  case (Cons node nodes)
  show ?case
  proof (cases "removeChunk w t node a")
    case (Some err)
    then show ?thesis using Cons.prems by auto
  next
    case None
    obtain r1 t1 tr1 where R: "removeFromNodes w (Suc t) nodes a = (r1, t1, tr1)"
      by (cases "removeFromNodes w (Suc t) nodes a")
    have e: "r = r1" "tr = Remove node None # tr1"
      using Cons.prems None R by simp_all
    show ?thesis using Cons.IH [OF R] e by auto
  qed
qed

lemma uploadAndPin_trace:
  "uploadAndPinChunkToNode w t node c = (r, t', tr)
   \<Longrightarrow> (\<forall>e \<in> set tr. \<not> isRemove e \<and> \<not> isNodesClients e)
       \<and> (\<exists>x rest. tr = Reupload node x # rest)"
  by (auto simp: uploadAndPinChunkToNode_def split: sum.splits)

lemma reuploadAndPoll_trace:
  assumes "reuploadAndPoll w t nodeA nodeC c = (r, t', tr)"
  shows "(\<forall>e \<in> set tr. \<not> isRemove e \<and> \<not> isNodesClients e)
         \<and> (\<exists>x rest. tr = Reupload nodeA x # rest)"
proof -
  obtain r1 t1 tr1 where U: "uploadAndPinChunkToNode w t nodeA c = (r1, t1, tr1)"
    by (cases "uploadAndPinChunkToNode w t nodeA c")
  note u = uploadAndPin_trace [OF U]
  show ?thesis
  proof (cases r1)
    case (Some e)
    then have "tr = tr1" using assms U by (simp add: reuploadAndPoll_def)
    then show ?thesis using u by simp
  next
    case None
    obtain r2 t2 tr2 where P: "pollRecoveredOnC w t1 0 nodeC c = (r2, t2, tr2)"
      by (cases "pollRecoveredOnC w t1 0 nodeC c")
    have n2: "\<forall>e \<in> set tr2. \<not> isRemove e \<and> \<not> isNodesClients e"
      using pollRecoveredOnC_events [OF P] by blast
    have "tr = tr1 @ tr2"
      using assms U None P by (cases r2) (simp_all add: reuploadAndPoll_def)
    then show ?thesis using u n2 by auto
  qed
qed

lemma recoverAfterDelete_events:
  assumes "recoverAfterDelete w t nodeA nodeC addressA c = (r, t', tr)"
  shows "(\<forall>e \<in> set tr. \<not> isRemove e \<and> \<not> isNodesClients e)
         \<and> (r = Completed \<longrightarrow> (\<exists>e \<in> set tr. isReupload e))"
proof -
  obtain r1 t1 tr1 where R: "reuploadAndPoll w (Suc t) nodeA nodeC c = (r1, t1, tr1)"
    by (cases "reuploadAndPoll w (Suc t) nodeA nodeC c")
  note p = reuploadAndPoll_trace [OF R]
  have q: "\<forall>e \<in> set tr1. \<not> isRemove e \<and> \<not> isNodesClients e" using p by blast
  obtain x rest where tr1: "tr1 = Reupload nodeA x # rest" using p by blast
  show ?thesis
    using assms R q tr1
    by (auto simp: recoverAfterDelete_def Let_def split: if_splits sum.splits)
qed

lemma recoverAfterDelete_trigger:
  assumes "addressA \<noteq> []"
  shows "case downloadChunk w t nodeC (chunkAddress c) (take 2 (hexString addressA)) of
           Inl e \<Rightarrow>
             if message e \<noteq> errMessage c
               then recoverAfterDelete w t nodeA nodeC addressA c
                      = (Failed (Wrap ''chunk recovery not triggered: '' e), Suc t,
                         [Download nodeC (take 2 (hexString addressA)) (Some e)])
             else \<exists>r t' x rest. recoverAfterDelete w t nodeA nodeC addressA c
                      = (r, t', Download nodeC (take 2 (hexString addressA)) (Some e)
                                # Reupload nodeA x # rest)
         | Inr data2 \<Rightarrow>
             \<exists>r t' x rest. recoverAfterDelete w t nodeA nodeC addressA c
                      = (r, t', Download nodeC (take 2 (hexString addressA)) None
                                # Reupload nodeA x # rest)"
proof -
  have len: "\<not> length (hexString addressA) < 2"
    using assms by (cases addressA) (simp_all add: length_hexString)
  obtain r1 t1 tr1 where R: "reuploadAndPoll w (Suc t) nodeA nodeC c = (r1, t1, tr1)"
    by (cases "reuploadAndPoll w (Suc t) nodeA nodeC c")
  obtain x rest where tr1: "tr1 = Reupload nodeA x # rest"
    using reuploadAndPoll_trace [OF R] by blast
  show ?thesis
    using len R tr1
    by (auto simp: recoverAfterDelete_def Let_def split: sum.splits)
qed

lemma deleteChunk_trace:
  assumes "deleteChunkFromAllNodes w t c = (r, t', tr)"
  shows "(\<forall>e \<in> set tr. \<not> isReupload e)
         \<and> (r = None \<longrightarrow>
              (\<exists>nodes. nodesClients w t = Inr nodes
                 \<and> tr = NodesClients (Inr nodes) # map (\<lambda>node. Remove node None) nodes))
         \<and> (\<forall>node x. Remove node (Some x) \<in> set tr \<longrightarrow>
               r = Some x \<and> tr \<noteq> [] \<and> last tr = Remove node (Some x))"
proof (cases "nodesClients w t")
  case (Inl err)
  then show ?thesis using assms by (auto simp: deleteChunkFromAllNodes_def)
next
  case (Inr nodes)
  obtain r1 t1 tr1 where R: "removeFromNodes w (Suc t) nodes (chunkAddress c) = (r1, t1, tr1)"
    by (cases "removeFromNodes w (Suc t) nodes (chunkAddress c)")
  have e: "r = r1" "tr = NodesClients (Inr nodes) # tr1"
    using assms Inr R by (simp_all add: deleteChunkFromAllNodes_def)
  from removeFromNodes_trace [OF R] show ?thesis using Inr e by auto
qed

lemma afterPresentOnB_removed:
  assumes "afterPresentOnB w t nodeA nodeC addressA ref c = (r, t', tr)"
    and "r = Completed \<or> (\<exists>e \<in> set tr. isReupload e)"
  shows "\<exists>nodes after. nodesClients w (Suc t) = Inr nodes
           \<and> tr = Download nodeC [] None # NodesClients (Inr nodes)
                    # map (\<lambda>node. Remove node None) nodes @ after
           \<and> (\<forall>e \<in> set after. \<not> isRemove e \<and> \<not> isNodesClients e)
           \<and> (\<exists>e \<in> set after. isReupload e)"
proof (cases "downloadChunk w t nodeC ref []")
  case (Inl err)
  then have "r = Failed err \<and> tr = [Download nodeC [] (Some err)]"
    using assms(1) by (auto simp: afterPresentOnB_def)
  then show ?thesis using assms(2) by simp
next
  case (Inr data1)
  show ?thesis
  proof (cases "data1 \<noteq> chunkData c")
    case True
    then have "r = Failed (Err ''chunk downloaded in NodeC does not have proper data'')
               \<and> tr = [Download nodeC [] None]"
      using assms(1) Inr by (auto simp: afterPresentOnB_def)
    then show ?thesis using assms(2) by simp
  next
    case False
    obtain r1 t1 tr1 where D: "deleteChunkFromAllNodes w (Suc t) c = (r1, t1, tr1)"
      by (cases "deleteChunkFromAllNodes w (Suc t) c")
    note d = deleteChunk_trace [OF D]
    show ?thesis
    proof (cases r1)
      case (Some e)
      then have e: "r = Failed e" "tr = Download nodeC [] None # tr1"
        using assms(1) Inr False D by (simp_all add: afterPresentOnB_def)
      have "\<forall>x \<in> set tr. \<not> isReupload x" using e d by simp
      then show ?thesis using assms(2) e by blast
    next
      case None
      obtain nodes where n: "nodesClients w (Suc t) = Inr nodes"
        and tr1: "tr1 = NodesClients (Inr nodes) # map (\<lambda>node. Remove node None) nodes"
        using d None by blast
      obtain r2 t2 tr2 where R: "recoverAfterDelete w t1 nodeA nodeC addressA c = (r2, t2, tr2)"
        by (cases "recoverAfterDelete w t1 nodeA nodeC addressA c")
      note ra = recoverAfterDelete_events [OF R]
      have e: "r = r2" "tr = Download nodeC [] None # tr1 @ tr2"
        using assms(1) Inr False D None R by (simp_all add: afterPresentOnB_def)
      have re: "\<exists>x \<in> set tr2. isReupload x"
      proof (cases "r = Completed")
        case True
        then show ?thesis using ra e by blast
      next
        case False
        then obtain x where "x \<in> set tr" "isReupload x" using assms(2) by blast
        then have "x \<in> set tr2" using e tr1 by auto
        then show ?thesis using \<open>isReupload x\<close> by blast
      qed
      have "tr = Download nodeC [] None # NodesClients (Inr nodes)
                   # map (\<lambda>node. Remove node None) nodes @ tr2"
        using e tr1 by simp
      then show ?thesis using n ra re by blast
    qed
  qed
qed

lemma afterPresentOnB_failed_removal:
  assumes "afterPresentOnB w t nodeA nodeC addressA ref c = (r, t', tr)"
    and "Remove node (Some x) \<in> set tr"
  shows "r = Failed x \<and> tr \<noteq> [] \<and> last tr = Remove node (Some x)
         \<and> (\<forall>e \<in> set tr. \<not> isReupload e)"
proof (cases "downloadChunk w t nodeC ref []")
  case (Inl err)
  then have "tr = [Download nodeC [] (Some err)]"
    using assms(1) by (auto simp: afterPresentOnB_def)
  then show ?thesis using assms(2) by simp
next
  case (Inr data1)
  show ?thesis
  proof (cases "data1 \<noteq> chunkData c")
    case True
    then have "tr = [Download nodeC [] None]"
      using assms(1) Inr by (auto simp: afterPresentOnB_def)
    then show ?thesis using assms(2) by simp
  next
    case False
    obtain r1 t1 tr1 where D: "deleteChunkFromAllNodes w (Suc t) c = (r1, t1, tr1)"
      by (cases "deleteChunkFromAllNodes w (Suc t) c")
    note d = deleteChunk_trace [OF D]
    show ?thesis
    proof (cases r1)
      case (Some e)
      then have e: "r = Failed e" "tr = Download nodeC [] None # tr1"
        using assms(1) Inr False D by (simp_all add: afterPresentOnB_def)
      have m: "Remove node (Some x) \<in> set tr1" using assms(2) e by simp
      then have "r1 = Some x" "tr1 \<noteq> []" "last tr1 = Remove node (Some x)"
        using d by blast+
      then show ?thesis using e d Some by simp
    next
      case None
      obtain nodes where
        tr1: "tr1 = NodesClients (Inr nodes) # map (\<lambda>node. Remove node None) nodes"
        using d None by blast
      obtain r2 t2 tr2 where R: "recoverAfterDelete w t1 nodeA nodeC addressA c = (r2, t2, tr2)"
        by (cases "recoverAfterDelete w t1 nodeA nodeC addressA c")
      note ra = recoverAfterDelete_events [OF R]
      have e: "tr = Download nodeC [] None # tr1 @ tr2"
        using assms(1) Inr False D None R by (simp add: afterPresentOnB_def)
      have "Remove node (Some x) \<in> set tr1 \<or> Remove node (Some x) \<in> set tr2"
        using assms(2) e by auto
      then have False
      proof
        assume "Remove node (Some x) \<in> set tr1"
        then show False using tr1 by auto
      next
        assume "Remove node (Some x) \<in> set tr2"
        then have "\<not> isRemove (Remove node (Some x))" using ra by blast
        then show False by simp
      qed
      then show ?thesis by simp
    qed
  qed
qed

lemma repairIteration_stages:
  assumes "repairIteration fuel w i t = Some (r, t', tr)"
  shows "(r \<noteq> Completed \<and> (\<forall>e \<in> set tr. \<not> isRemove e \<and> \<not> isReupload e \<and> \<not> isNodesClients e))
         \<or> (\<exists>nodeA nodeB nodeC c addressA batchID ref t1 tr1 tr2.
               getNodesResult w i = Inr (nodeA, nodeB, nodeC, c)
               \<and> overlay w t nodeA = Inr addressA
               \<and> createPostageBatch w (Suc t) nodeA = Inr batchID
               \<and> uploadChunk w (Suc (Suc t)) nodeA (chunkData c) = Inr ref
               \<and> pollPresentOnB fuel w (Suc (Suc (Suc t))) 0 nodeB ref = Some (None, t1, tr1)
               \<and> afterPresentOnB w t1 nodeA nodeC addressA ref c = (r, t', tr2)
               \<and> tr = tr1 @ tr2)"
proof (cases "getNodesResult w i")
  case (Inl err)
  then show ?thesis using assms by (auto simp: repairIteration_def)
next
  case (Inr nodes)
  obtain nodeA nodeB nodeC c where nodes: "nodes = (nodeA, nodeB, nodeC, c)"
    by (cases nodes)
  show ?thesis
  proof (cases "overlay w t nodeA")
    case (Inl err)
    then show ?thesis using assms Inr nodes by (auto simp: repairIteration_def)
  next
    case ov: (Inr addressA)
    show ?thesis
    proof (cases "createPostageBatch w (Suc t) nodeA")
      case (Inl err)
      then show ?thesis using assms Inr nodes ov by (auto simp: repairIteration_def)
    next
      case ba: (Inr batchID)
      show ?thesis
      proof (cases "uploadChunk w (Suc (Suc t)) nodeA (chunkData c)")
        case (Inl err)
        then show ?thesis using assms Inr nodes ov ba by (auto simp: repairIteration_def)
      next
        case up: (Inr ref)
        obtain r1 t1 tr1 where
          P: "pollPresentOnB fuel w (Suc (Suc (Suc t))) 0 nodeB ref = Some (r1, t1, tr1)"
          using assms Inr nodes ov ba up
          by (auto simp: repairIteration_def split: option.splits)
        note p = pollPresentOnB_events [OF P]
        show ?thesis
        proof (cases r1)
          case (Some e)
          then have "tr = tr1 \<and> r = Failed e" using assms Inr nodes ov ba up P
            by (simp add: repairIteration_def)
          then show ?thesis using p by simp
        next
          case None
          obtain r2 t2 tr2 where
            A: "afterPresentOnB w t1 nodeA nodeC addressA ref c = (r2, t2, tr2)"
            by (cases "afterPresentOnB w t1 nodeA nodeC addressA ref c")
          have e: "r = r2" "t' = t2" "tr = tr1 @ tr2"
            using assms Inr nodes ov ba up P None A by (simp_all add: repairIteration_def)
          show ?thesis
            using Inr nodes ov ba up P None A e by blast
        qed
      qed
    qed
  qed
qed

lemma isReupload_iff: "isReupload e \<longleftrightarrow> (\<exists>node x. e = Reupload node x)"
  by (cases e) simp_all

lemma repairLoop_failed:
  "repairIteration fuel w i t = Some (Failed e, t', tr)
   \<Longrightarrow> repairLoop fuel w i (Suc remaining) t = Some (Return (Some e), tr)"
  by simp

lemma repairIteration_reaches_trigger:
  assumes "getNodesResult w i = Inr (nodeA, nodeB, nodeC, c)"
    and "overlay w t nodeA = Inr addressA"
    and "createPostageBatch w (Suc t) nodeA = Inr batchID"
    and "uploadChunk w (Suc (Suc t)) nodeA (chunkData c) = Inr ref"
    and "pollPresentOnB fuel w (Suc (Suc (Suc t))) 0 nodeB ref = Some (None, t1, tr1)"
    and "downloadChunk w t1 nodeC ref [] = Inr (chunkData c)"
    and "deleteChunkFromAllNodes w (Suc t1) c = (None, t2, tr2)"
    and "recoverAfterDelete w t2 nodeA nodeC addressA c = (r, t3, tr3)"
  shows "repairIteration fuel w i t = Some (r, t3, tr1 @ Download nodeC [] None # tr2 @ tr3)"
  using assms by (simp add: repairIteration_def afterPresentOnB_def)

lemma demo_hint: "take 2 (hexString [0x10]) = ''10''"
  by code_simp

lemma demo_errMessage: "errMessage demoChunk = ''download chunk 2a: try again later''"
  by code_simp

lemma demo_poll:
  "pollPresentOnB 1 (repairWorld (Inr True) badNode trigger) 3 0 ''bee-1'' [0x2A]
     = Some (None, 4, [HasChunk ''bee-1'' (Inr True)])"
  by (simp add: repairWorld_def maxIterations_def)

lemma demo_delete:
  "deleteChunkFromAllNodes (repairWorld answer [] trigger) 5 demoChunk
     = (None, 9, [NodesClients (Inr [''bee-0'', ''bee-1'', ''bee-2'']),
                  Remove ''bee-0'' None, Remove ''bee-1'' None, Remove ''bee-2'' None])"
  by (simp add: deleteChunkFromAllNodes_def repairWorld_def demoChunk_def)

lemma demo_iteration_ok:
  "repairIteration 1 (repairWorld (Inr True) [] (Inr [0x2A])) 0 0 =
     Some (Completed, 13,
       [HasChunk ''bee-1'' (Inr True), Download ''bee-2'' [] None,
        NodesClients (Inr [''bee-0'', ''bee-1'', ''bee-2'']),
        Remove ''bee-0'' None, Remove ''bee-1'' None, Remove ''bee-2'' None,
        Download ''bee-2'' ''10'' None, Reupload ''bee-0'' None, PinRootHash ''bee-0'' None,
        Download ''bee-2'' [] None, Repaired])"
  by code_simp

lemma demo_iteration_bad_removal:
  "repairIteration 1 (repairWorld (Inr True) ''bee-1'' (Inr [0x2A])) 0 0 =
     Some (Failed (Err ''remove failed''), 8,
       [HasChunk ''bee-1'' (Inr True), Download ''bee-2'' [] None,
        NodesClients (Inr [''bee-0'', ''bee-1'', ''bee-2'']),
        Remove ''bee-0'' None, Remove ''bee-1'' (Some (Err ''remove failed''))])"
  by code_simp

subsection \<open>Facts about the replica scan\<close>














subsection \<open>Facts about the seeded chunks\<close>

lemma drawSeq_mono: "m \<le> n \<Longrightarrow> prefix (drawSeq src rnd m) (drawSeq src rnd n)"
proof (induction m arbitrary: n rnd)
  case 0
  then show ?case by simp
next
  case (Suc m)
  then obtain n' where n: "n = Suc n'" and le: "m \<le> n'" by (cases n) auto
  show ?case
  proof (cases "newRandomChunk src rnd")
    case (Pair res rnd')
    show ?thesis
    proof (cases res)
      case (Inl err)
      then show ?thesis using Pair n by simp
    next
      case (Inr c)
      then show ?thesis using Pair n Suc.IH [OF le, of rnd'] by simp
    qed
  qed
qed

lemma getRandomChunk_draw:
  assumes "getRandomChunkAndClosestNode src overlays rnd = (r, drawn, rnd')"
  shows "case newRandomChunk src rnd of
           (Inl err, g) \<Rightarrow> drawn = [] \<and> (\<exists>e. r = Inl e)
         | (Inr c, g) \<Rightarrow> drawn = [c] \<and> rnd' = g"
  using assms
  by (auto simp: getRandomChunkAndClosestNode_def split: prod.splits sum.splits option.splits)

lemma findNodeB_draws:
  "prefix (snd (findNodeB fuel src overlays overlayA overlayC rnd)) (drawSeq src rnd fuel)"
proof (induction fuel arbitrary: rnd)
  case 0
  show ?case by simp
next
  case (Suc fuel)
  obtain r drawn rnd' where
    G: "getRandomChunkAndClosestNode src overlays rnd = (r, drawn, rnd')"
    by (cases "getRandomChunkAndClosestNode src overlays rnd")
  note g = getRandomChunk_draw [OF G]
  obtain res g0 where N: "newRandomChunk src rnd = (res, g0)"
    by (cases "newRandomChunk src rnd")
  show ?case
  proof (cases res)
    case (Inl err)
    then have "drawn = []" "\<exists>e. r = Inl e" using g N by simp_all
    then show ?thesis using G by auto
  next
    case (Inr c)
    then have d: "drawn = [c]" "rnd' = g0" using g N by simp_all
    obtain r2 drawn2 where
      F: "findNodeB fuel src overlays overlayA overlayC g0 = (r2, drawn2)"
      by (cases "findNodeB fuel src overlays overlayA overlayC g0")
    have p: "prefix drawn2 (drawSeq src g0 fuel)" using Suc.IH [of g0] F by simp
    have s: "drawSeq src rnd (Suc fuel) = c # drawSeq src g0 fuel" using N Inr by simp
    show ?thesis
    proof (cases r)
      case (Inl e)
      then have "findNodeB (Suc fuel) src overlays overlayA overlayC rnd = (Some (Inl e), [c])"
        using G d by simp
      then show ?thesis unfolding s by simp
    next
      case (Inr found)
      obtain closestOverlay c' where found: "found = (closestOverlay, c')" by (cases found)
      show ?thesis
      proof (cases "closestOverlay = overlayA \<or> closestOverlay = overlayC")
        case True
        then have "findNodeB (Suc fuel) src overlays overlayA overlayC rnd = (r2, c # drawn2)"
          using G d Inr found F by auto
        then show ?thesis unfolding s using p by simp
      next
        case False
        then have "findNodeB (Suc fuel) src overlays overlayA overlayC rnd
                     = (Some (Inr (closestOverlay, c')), [c])"
          using G d Inr found by simp
        then show ?thesis unfolding s by simp
      qed
    qed
  qed
qed

lemma getNodes_draws: "prefix (snd (getNodes fuel src ng rnd)) (drawSeq src rnd fuel)"
proof (cases "ngOverlays ng")
  case (Inl err)
  then show ?thesis by (simp add: getNodes_def)
next
  case (Inr overlays)
  show ?thesis
  proof (cases "ngSize ng < minNodesRequired")
    case True
    then show ?thesis using Inr by (simp add: getNodes_def)
  next
    case False
    show ?thesis
    proof (cases "findFarthestNodes (ngOuter ng) (ngInner ng)")
      case (Inl err)
      then show ?thesis using Inr False by (simp add: getNodes_def)
    next
      case far: (Inr pair)
      obtain overlayA overlayC where pair: "pair = (overlayA, overlayC)" by (cases pair)
      obtain r drawn where F: "findNodeB fuel src overlays overlayA overlayC rnd = (r, drawn)"
        by (cases "findNodeB fuel src overlays overlayA overlayC rnd")
      have p: "prefix drawn (drawSeq src rnd fuel)"
        using findNodeB_draws [of fuel src overlays overlayA overlayC rnd] F by simp
      have "snd (getNodes fuel src ng rnd) = drawn"
        using Inr False far pair F
        by (simp add: getNodes_def split: option.splits sum.splits prod.splits)
      then show ?thesis using p by simp
    qed
  qed
qed

lemma prefix_comparable:
  fixes f :: "nat \<Rightarrow> 'a list"
  assumes "prefix xs (f m)" and "prefix ys (f n)"
    and "\<And>a b. a \<le> b \<Longrightarrow> prefix (f a) (f b)"
  shows "prefix xs ys \<or> prefix ys xs"
proof -
  have a: "prefix (f m) (f (max m n))" by (rule assms(3)) simp
  have b: "prefix (f n) (f (max m n))" by (rule assms(3)) simp
  have "prefix xs (f (max m n))" using assms(1) a by (rule prefix_order.trans)
  moreover have "prefix ys (f (max m n))" using assms(2) b by (rule prefix_order.trans)
  ultimately show ?thesis by (rule prefix_same_cases)
qed

lemma getNodesInRun_comparable:
  "prefix (snd (getNodesInRun fuel1 src ng1 seed numberOfChunks i))
          (snd (getNodesInRun fuel2 src ng2 seed numberOfChunks i))
   \<or> prefix (snd (getNodesInRun fuel2 src ng2 seed numberOfChunks i))
            (snd (getNodesInRun fuel1 src ng1 seed numberOfChunks i))"
proof (cases "length (pseudoGenerators src seed numberOfChunks) \<le> i")
  case True
  then show ?thesis by (simp add: getNodesInRun_def)
next
  case False
  let ?g = "pseudoGenerators src seed numberOfChunks ! i"
  have "prefix (snd (getNodes fuel1 src ng1 ?g)) (snd (getNodes fuel2 src ng2 ?g))
        \<or> prefix (snd (getNodes fuel2 src ng2 ?g)) (snd (getNodes fuel1 src ng1 ?g))"
    by (rule prefix_comparable [where f = "drawSeq src ?g", OF getNodes_draws getNodes_draws])
       (rule drawSeq_mono)
  then show ?thesis using False by (simp add: getNodesInRun_def Let_def)
qed

lemma lightChunk_trace:
  assumes "lightChunk src w overlays nodeName j rnd = (st, tr)"
  shows "case newRandomChunk src rnd of
           (Inl err, g) \<Rightarrow> tr = [] \<and> (\<exists>out. st = Done out)
         | (Inr c, g) \<Rightarrow>
             (tr = [Drawn nodeName c] \<and> (\<exists>out. st = Done out))
             \<or> (\<exists>closestName closestAddress.
                   closestNodeFromMap src c overlays []
                     = (closestName, closestAddress, None)
                   \<and> tr = [Drawn nodeName c, Closest closestName closestAddress]
                   \<and> (st = Next g \<or> (\<exists>out. st = Done out)))"
proof -
  obtain res g0 where N: "newRandomChunk src rnd = (res, g0)"
    by (cases "newRandomChunk src rnd")
  show ?thesis
  proof (cases res)
    case (Inl err)
    then show ?thesis using assms N by (auto simp: lightChunk_def)
  next
    case (Inr c)
    show ?thesis
    proof (cases "uploadTries w nodeName j (chunkData c) 3 0 (Inr ZeroAddress)")
      case (Inl err)
      then show ?thesis using assms N Inr by (auto simp: lightChunk_def)
    next
      case up: (Inr ref)
      obtain closestName closestAddress e where
        C: "closestNodeFromMap src c overlays [] = (closestName, closestAddress, e)"
        by (cases "closestNodeFromMap src c overlays []")
      show ?thesis
      proof (cases e)
        case (Some err)
        then show ?thesis using assms N Inr up C by (auto simp: lightChunk_def)
      next
        case None
        have "tr = [Drawn nodeName c, Closest closestName closestAddress]"
          using assms N Inr up C None by (auto simp: lightChunk_def)
        moreover have "st = Next g0 \<or> (\<exists>out. st = Done out)"
          using assms N Inr up C None
          by (cases "replicationEnds w nodeName j ref") (auto simp: lightChunk_def)
        ultimately show ?thesis using N Inr C None by auto
      qed
    qed
  qed
qed

lemma lightChunks_prefix:
  "lightChunks src w overlays nodeName n j rnd = (r, tr)
   \<Longrightarrow> prefix tr (fst (chunkDraws src overlays nodeName n rnd))
       \<and> (r = None \<longrightarrow> chunkDraws src overlays nodeName n rnd = (tr, True))"
proof (induction n arbitrary: j rnd r tr)
  case 0
  then show ?case by simp
next
  case (Suc n)
  obtain st tr1 where L: "lightChunk src w overlays nodeName j rnd = (st, tr1)"
    by (cases "lightChunk src w overlays nodeName j rnd")
  note l = lightChunk_trace [OF L]
  obtain res g0 where N: "newRandomChunk src rnd = (res, g0)"
    by (cases "newRandomChunk src rnd")
  show ?case
  proof (cases res)
    case (Inl err)
    then obtain out where "tr1 = []" "st = Done out" using l N by auto
    then show ?thesis using Suc.prems L by auto
  next
    case (Inr c)
    from l N Inr have
      "(tr1 = [Drawn nodeName c] \<and> (\<exists>out. st = Done out))
       \<or> (\<exists>closestName closestAddress.
             closestNodeFromMap src c overlays []
               = (closestName, closestAddress, None)
             \<and> tr1 = [Drawn nodeName c, Closest closestName closestAddress]
             \<and> (st = Next g0 \<or> (\<exists>out. st = Done out)))"
      by simp
    then show ?thesis
    proof
      assume "tr1 = [Drawn nodeName c] \<and> (\<exists>out. st = Done out)"
      then obtain out where t: "tr1 = [Drawn nodeName c]" and st: "st = Done out" by blast
      have e: "r = Some out" "tr = [Drawn nodeName c]"
        using Suc.prems L st t by simp_all
      have "\<exists>rest. fst (chunkDraws src overlays nodeName (Suc n) rnd) = Drawn nodeName c # rest"
        using N Inr by (auto split: prod.splits option.splits)
      then show ?thesis using e by auto
    next
      assume "\<exists>closestName closestAddress.
             closestNodeFromMap src c overlays []
               = (closestName, closestAddress, None)
             \<and> tr1 = [Drawn nodeName c, Closest closestName closestAddress]
             \<and> (st = Next g0 \<or> (\<exists>out. st = Done out))"
      then obtain closestName closestAddress where
        C: "closestNodeFromMap src c overlays [] = (closestName, closestAddress, None)"
        and t: "tr1 = [Drawn nodeName c, Closest closestName closestAddress]"
        and s: "st = Next g0 \<or> (\<exists>out. st = Done out)"
        by blast
      obtain tr2 ok where D: "chunkDraws src overlays nodeName n g0 = (tr2, ok)"
        by (cases "chunkDraws src overlays nodeName n g0")
      have cd: "chunkDraws src overlays nodeName (Suc n) rnd
                  = (Drawn nodeName c # Closest closestName closestAddress # tr2, ok)"
        using N Inr C D by simp
      from s show ?thesis
      proof
        assume st: "st = Next g0"
        obtain r3 tr3 where
          R: "lightChunks src w overlays nodeName n (Suc j) g0 = (r3, tr3)"
          by (cases "lightChunks src w overlays nodeName n (Suc j) g0")
        have e: "r = r3" "tr = Drawn nodeName c # Closest closestName closestAddress # tr3"
          using Suc.prems L st t R by simp_all
        from Suc.IH [OF R] D
        have "prefix tr3 tr2" "r3 = None \<longrightarrow> tr2 = tr3 \<and> ok" by auto
        then show ?thesis using e cd by auto
      next
        assume "\<exists>out. st = Done out"
        then obtain out where st: "st = Done out" by blast
        have e: "r = Some out" "tr = [Drawn nodeName c, Closest closestName closestAddress]"
          using Suc.prems L st t by simp_all
        then show ?thesis using cd by simp
      qed
    qed
  qed
qed

lemma lightNodes_prefix:
  "prefix (snd (lightNodes src w rnds overlays clients names i))
          (nodeDraws src rnds overlays (chunksPerNode w) (uploadNodeCount w) names i)"
proof (induction names arbitrary: i)
  case Nil
  show ?case by simp
next
  case (Cons nodeName rest)
  show ?case
  proof (cases "uploadNodeCount w \<le> i \<or> nodeName \<notin> set clients
                \<or> (0 < chunksPerNode w \<and> length rnds \<le> i)")
    case True
    then show ?thesis by (auto split: sum.splits)
  next
    case False
    show ?thesis
    proof (cases "getOrCreateBatch w nodeName")
      case (Inl err)
      then show ?thesis using False by simp
    next
      case (Inr batchID)
      obtain r tr where
        L: "lightChunks src w overlays nodeName (chunksPerNode w) 0 (rnds ! i) = (r, tr)"
        by (cases "lightChunks src w overlays nodeName (chunksPerNode w) 0 (rnds ! i)")
      note l = lightChunks_prefix [OF L]
      obtain tr2 ok where
        C: "chunkDraws src overlays nodeName (chunksPerNode w) (rnds ! i) = (tr2, ok)"
        by (cases "chunkDraws src overlays nodeName (chunksPerNode w) (rnds ! i)")
      have p: "prefix tr tr2" using l C by simp
      show ?thesis
      proof (cases r)
        case None
        then have full: "tr2 = tr" "ok" using l C by simp_all
        obtain r3 tr3 where
          R: "lightNodes src w rnds overlays clients rest (Suc i) = (r3, tr3)"
          by (cases "lightNodes src w rnds overlays clients rest (Suc i)")
        have "prefix tr3
                (nodeDraws src rnds overlays (chunksPerNode w) (uploadNodeCount w) rest (Suc i))"
          using Cons.IH [of "Suc i"] R by simp
        then show ?thesis using False Inr L None R C full by simp
      next
        case (Some out)
        have "prefix tr (tr2 @ rest')" for rest'
          using p by (rule prefix_prefix)
        then show ?thesis using False Inr L Some C p by (cases ok) simp_all
      qed
    qed
  qed
qed

lemma checkLightChunks_prefix:
  "prefix (snd (checkLightChunks src w seed)) (seededDraws src w seed)"
proof (cases "flattenOverlaysResult w")
  case (Inl err)
  then show ?thesis by (simp add: checkLightChunks_def seededDraws_def)
next
  case (Inr overlays)
  show ?thesis
  proof (cases "nodesClientsResult w")
    case (Inl err)
    then show ?thesis using Inr by (simp add: checkLightChunks_def seededDraws_def)
  next
    case cl: (Inr clients)
    show ?thesis
      using lightNodes_prefix [of src w "pseudoGenerators src seed (uploadNodeCount w)"
          overlays clients "lightNodeNames w" 0] Inr cl
      by (simp add: checkLightChunks_def seededDraws_def)
  qed
qed

lemma seededDraws_cong:
  assumes "flattenOverlaysResult l1 = flattenOverlaysResult l2"
    and "lightNodeNames l1 = lightNodeNames l2"
    and "uploadNodeCount l1 = uploadNodeCount l2"
    and "chunksPerNode l1 = chunksPerNode l2"
  shows "seededDraws src l1 seed = seededDraws src l2 seed"
  using assms by (simp add: seededDraws_def split: sum.splits)

lemma demo_getNodes_first:
  "getNodesInRun 2 countingChunks (fourNodeGroup fourNodes) 0 1 0
     = (Some (Nodes (Some ''n0'') (Some ''n1'') (Some ''n3'') (byteChunk 1)),
        [byteChunk 0, byteChunk 1])"
  by code_simp

lemma demo_getNodes_second:
  "getNodesInRun 2 countingChunks
       (fourNodeGroup [(''n1'', [0x01]), (''n2'', [0xFE]), (''n0'', [0x00]), (''n3'', [0xFF])]) 0 1 0
     = (Some (Nodes (Some ''n1'') (Some ''n0'') (Some ''n2'') (byteChunk 0)), [byteChunk 0])"
  by code_simp

lemma demo_light_all:
  "checkLightChunks countingChunks (lightCluster FoundReplica) 0
     = (Return None,
        [Drawn ''light-0'' (byteChunk 0), Closest ''n0'' [0x00],
         Drawn ''light-0'' (byteChunk 1), Closest ''n1'' [0x01]])"
  by code_simp

lemma demo_light_one:
  "checkLightChunks countingChunks (lightCluster MissingReplica) 0
     = (Return (Some (Err ''node light-0 chunk 00 not replicated'')),
        [Drawn ''light-0'' (byteChunk 0), Closest ''n0'' [0x00]])"
  by code_simp

section \<open>The claims\<close>

text \<open>
  Claim C5. For byte sequences \<open>x\<close> and \<open>y\<close> of equal length, \<open>distance\<close> is symmetric,
  is zero on two equal operands, is zero only on equal operands, and is the bytewise XOR
  read as a big-endian unsigned integer. For operands of different lengths it returns the
  length error and no value.
\<close>

theorem C5_distance_metric:
  "(length x = length y \<longrightarrow>
      distance x y = distance y x \<and> distance x x = Inr 0
      \<and> (distance x y = Inr 0 \<longrightarrow> x = y)
      \<and> distance x y = Inr (SetBytes (map2 (XOR) x y)))
   \<and> (length x \<noteq> length y \<longrightarrow> distance x y = Inl errAddressLength)"
proof (intro conjI impI)
  show "distance x y = distance y x" by (rule distance_commute)
  show "distance x x = Inr 0" using distance_zero_iff [of x x] by simp
  show "x = y" if "length x = length y" "distance x y = Inr 0"
    using that distance_zero_iff [of x y] by simp
  show "distance x y = Inr (SetBytes (map2 (XOR) x y))" if "length x = length y"
    using that by (rule distance_eq_length)
  show "distance x y = Inl errAddressLength" if "length x \<noteq> length y"
    using that by (rule distance_mismatch)
qed

theorem C5_distance_metric_witness:
  "length [0x12, 0x34 :: byte] = length [0x12, 0x35 :: byte]
   \<and> distance [0x12, 0x34] [0x12, 0x35] = distance [0x12, 0x35] [0x12, 0x34]
   \<and> distance [0x12, 0x34] [0x12, 0x35] = Inr 1
   \<and> distance [0x12, 0x34] [0x12, 0x34] = Inr 0
   \<and> length [0x12 :: byte] \<noteq> length [0x12, 0x35 :: byte]
   \<and> distance [0x12] [0x12, 0x35] = Inl errAddressLength"
proof -
  have h: "length [0x12, 0x34 :: byte] = length [0x12, 0x35 :: byte]" by simp
  have g: "length [0x12 :: byte] \<noteq> length [0x12, 0x35 :: byte]" by simp
  note eq = C5_distance_metric [of "[0x12, 0x34]" "[0x12, 0x35]"]
  note ne = C5_distance_metric [of "[0x12]" "[0x12, 0x35]"]
  have a: "distance [0x12, 0x34] [0x12, 0x35] = distance [0x12, 0x35] [0x12, 0x34 :: byte]"
    using eq h by blast
  have b: "distance [0x12, 0x34] [0x12, 0x35 :: byte]
           = Inr (SetBytes (map2 (XOR) [0x12, 0x34] [0x12, 0x35]))"
    using eq h by blast
  have b': "SetBytes (map2 (XOR) [0x12, 0x34] [0x12, 0x35 :: byte]) = 1"
    by (simp add: SetBytes_def)
  have c: "distance [0x12, 0x34] [0x12, 0x34 :: byte] = Inr 0"
    using eq h by blast
  have d: "distance [0x12] [0x12, 0x35 :: byte] = Inl errAddressLength"
    using ne g by blast
  show ?thesis using h g a b b' c d by (simp only: simp_thms)
qed

text \<open>
  Claim C4, as amended. Whatever order each \<open>range\<close> over the overlay map takes, if all
  addresses have one length then \<open>findFarthestNodes\<close> returns a pair whose distance is the
  brute-force maximum over the snapshot, and if the snapshot holds two different addresses
  both results are snapshot addresses and differ. Which of the maximal pairs is returned
  is left to the iteration order.
\<close>

theorem C4_farthest_pair_is_maximal:
  assumes "\<forall>a \<in> snd ` set outer. length a = n"
    and "\<forall>j < length outer. snd ` set (inner j) = snd ` set outer"
  shows "\<exists>A C. findFarthestNodes outer inner = Inr (A, C)
           \<and> distance A C = Inr (bruteForceFarthest (map snd outer))
           \<and> ((\<exists>x \<in> snd ` set outer. \<exists>y \<in> snd ` set outer. x \<noteq> y)
                \<longrightarrow> A \<in> snd ` set outer \<and> C \<in> snd ` set outer \<and> A \<noteq> C)"
  using assms by (rule findFarthestNodes_max)

theorem C4_farthest_pair_is_maximal_witness:
  "\<exists>A C. findFarthestNodes [(''n0'', [0x00 :: byte]), (''n1'', [0x80]), (''n2'', [0xFF])]
            (fixedOrder [(''n2'', [0xFF :: byte]), (''n0'', [0x00]), (''n1'', [0x80])])
          = Inr (A, C)
        \<and> distance A C = Inr 255 \<and> A \<noteq> C"
proof -
  let ?l = "[(''n0'', [0x00 :: byte]), (''n1'', [0x80]), (''n2'', [0xFF])]"
  let ?i = "fixedOrder [(''n2'', [0xFF :: byte]), (''n0'', [0x00]), (''n1'', [0x80])]"
  have h1: "\<forall>a \<in> snd ` set ?l. length a = 1" by simp
  have h2: "\<forall>j < length ?l. snd ` set (?i j) = snd ` set ?l"
    by (auto simp: fixedOrder_def)
  have v: "bruteForceFarthest (map snd ?l) = 255"
    by (simp add: bruteForceFarthest_def xorValue_def SetBytes_def)
  from C4_farthest_pair_is_maximal [OF h1 h2]
  obtain A C where "findFarthestNodes ?l ?i = Inr (A, C)"
    "distance A C = Inr (bruteForceFarthest (map snd ?l))" "A \<noteq> C"
    by auto
  then show ?thesis using v by auto
qed

text \<open>
  Counterexample to claim C4 as stated: two enumerations of one and the same snapshot,
  each a legal order for Go's \<open>range\<close>, give two different pairs.
\<close>

theorem C4_same_snapshot_counterexample:
  "ranges_over (map_of [(''n0'', [0x00 :: byte]), (''n1'', [0xFF])])
     [(''n0'', [0x00]), (''n1'', [0xFF])]
   \<and> ranges_over (map_of [(''n0'', [0x00 :: byte]), (''n1'', [0xFF])])
     [(''n1'', [0xFF]), (''n0'', [0x00])]
   \<and> findFarthestNodes [(''n0'', [0x00]), (''n1'', [0xFF])]
         (fixedOrder [(''n0'', [0x00]), (''n1'', [0xFF])]) = Inr ([0x00], [0xFF])
   \<and> findFarthestNodes [(''n1'', [0xFF]), (''n0'', [0x00])]
         (fixedOrder [(''n1'', [0xFF]), (''n0'', [0x00])]) = Inr ([0xFF], [0x00])"
proof -
  have m: "map_of [(''n1'', [0xFF :: byte]), (''n0'', [0x00])]
           = map_of [(''n0'', [0x00 :: byte]), (''n1'', [0xFF])]"
    by (rule ext) simp
  have d1: "distance [0x00 :: byte] [0xFF] = Inr 255"
    by (simp add: distance_def distanceRaw_def SetBytes_def)
  have d2: "distance [0xFF :: byte] [0x00] = Inr 255"
    by (simp add: distance_def distanceRaw_def SetBytes_def)
  show ?thesis
    using m d1 d2
    by (simp add: ranges_over_def findFarthestNodes_def fixedOrder_def ZeroAddress_def)
qed

text \<open>
  Claim C10. If all addresses of the overlay map are equal (a map with one entry among
  them), \<open>findFarthestNodes\<close> returns the zero address twice and no error; the check that
  precedes it in \<open>getNodes\<close> compares only the node count with the minimum, so it lets
  such a snapshot through.
\<close>

theorem C10_equal_addresses_give_zero_pair:
  assumes "\<forall>a \<in> snd ` set outer. a = x"
    and "\<forall>j < length outer. snd ` set (inner j) = snd ` set outer"
  shows "findFarthestNodes outer inner = Inr (ZeroAddress, ZeroAddress)
         \<and> (minNodesRequired \<le> groupSize \<longrightarrow>
              getNodes_farthest (Inr outer) inner groupSize = Inr (ZeroAddress, ZeroAddress))"
  using findFarthestNodes_all_equal [OF assms]
  by (simp add: getNodes_farthest_def)

theorem C10_equal_addresses_give_zero_pair_witness:
  "minNodesRequired \<le> 3
   \<and> getNodes_farthest (Inr [(''n0'', [0x2A :: byte]), (''n1'', [0x2A]), (''n2'', [0x2A])])
         (fixedOrder [(''n1'', [0x2A :: byte]), (''n2'', [0x2A]), (''n0'', [0x2A])]) 3
       = Inr (ZeroAddress, ZeroAddress)
   \<and> findFarthestNodes [(''n0'', [0x2A :: byte])] (fixedOrder [(''n0'', [0x2A :: byte])])
       = Inr (ZeroAddress, ZeroAddress)"
proof -
  let ?l = "[(''n0'', [0x2A :: byte]), (''n1'', [0x2A]), (''n2'', [0x2A])]"
  let ?i = "fixedOrder [(''n1'', [0x2A :: byte]), (''n2'', [0x2A]), (''n0'', [0x2A])]"
  have h1: "\<forall>a \<in> snd ` set ?l. a = [0x2A]" by simp
  have h2: "\<forall>j < length ?l. snd ` set (?i j) = snd ` set ?l"
    by (auto simp: fixedOrder_def)
  have h3: "minNodesRequired \<le> 3" by (simp add: minNodesRequired_def)
  have s1: "\<forall>a \<in> snd ` set [(''n0'', [0x2A :: byte])]. a = [0x2A]" by simp
  have s2: "\<forall>j < length [(''n0'', [0x2A :: byte])].
              snd ` set (fixedOrder [(''n0'', [0x2A :: byte])] j) = snd ` set [(''n0'', [0x2A :: byte])]"
    by (simp add: fixedOrder_def)
  show ?thesis
    using h3 C10_equal_addresses_give_zero_pair [OF h1 h2, of 3]
      C10_equal_addresses_give_zero_pair [OF s1 s2, of 0]
    by simp
qed

text \<open>
  Claim C9. With at least two nodes in the cluster, the two indices taken from the
  permutation (\<open>perm[0]\<close> and \<open>perm[1]\<close>) differ and lie below the cluster size, so
  no iteration and no run takes the restart branch for equal indices.
\<close>

theorem C9_pair_distinct:
  assumes "2 \<le> clusterSize w"
  shows "(case Perm (source w) g (clusterSize w) of
            (perm, g') \<Rightarrow> perm ! 0 \<noteq> perm ! 1
               \<and> perm ! 0 < clusterSize w \<and> perm ! 1 < clusterSize w)
         \<and> SamePeer \<notin> set (snd (smokeIteration w i g k))
         \<and> SamePeer \<notin> set (snd (smokeRun fuel w rndSeed))"
proof -
  have a: "case Perm (source w) g (clusterSize w) of
            (perm, g') \<Rightarrow> perm ! 0 \<noteq> perm ! 1
               \<and> perm ! 0 < clusterSize w \<and> perm ! 1 < clusterSize w"
    using Perm_first_two [OF assms, of "source w" g] by (auto split: prod.splits)
  have b: "SamePeer \<notin> set (snd (smokeIteration w i g k))"
    using assms by (rule smokeIteration_no_same_peer)
  have c: "SamePeer \<notin> set (snd (smokeRun fuel w rndSeed))"
    using smokeRunLoop_no_same_peer [OF assms]
    by (simp add: smokeRun_def split: option.splits)
  show ?thesis using a b c by blast
qed

theorem C9_pair_distinct_witness:
  "fst (Perm counterSource 7 2) ! 0 \<noteq> fst (Perm counterSource 7 2) ! 1
   \<and> SamePeer \<notin> set (snd (smokeRun 4 (perfectNetwork [0x01] (doneFrom 9)) 7))"
proof -
  have h: "2 \<le> clusterSize (perfectNetwork [0x01] (doneFrom 9))"
    by (simp add: perfectNetwork_fields)
  from C9_pair_distinct [OF h, of 7 0 0 4 7]
  show ?thesis by (simp add: perfectNetwork_fields split: prod.splits)
qed

text \<open>
  Claim C8. RoundTripCheck queries the cancellation signal at the top of every iteration
  and inside both retry loops, and returns \<open>nil\<close> when a query finds it fired.

  In every run each role selection, each upload attempt and each download attempt comes
  directly after a query of its place that found the context not done; a query that
  finds it done is the last event of the run; and the run returns \<open>nil\<close> exactly when
  such a query occurred. If the signal fires at the \<open>K\<close>-th query and the cluster has
  its two nodes, the run has returned \<open>nil\<close> within \<open>K + 1\<close> iterations.

  The queries are made: every iteration begins with a query; every pass of the upload
  loop and every pass of the download loop (a remaining retry, duration still 0) begins
  with a query; the upload loop is entered right after the payload was read, and the
  download loop right after an upload loop that measured a duration. In each of these
  places a fired signal ends the run there with \<open>nil\<close>.
\<close>

theorem C8_cancellation_is_clean_exit:
  "guarded None (snd (smokeRun fuel w rndSeed))
   \<and> firedLast (snd (smokeRun fuel w rndSeed))
   \<and> ((\<exists>e \<in> set (snd (smokeRun fuel w rndSeed)). isFired e)
        \<longleftrightarrow> fst (smokeRun fuel w rndSeed) = Some (Return None))
   \<and> (ctxDone w K \<and> nodesClientsError w = None
        \<and> 2 \<le> clusterSize w \<and> clusterSize w \<le> length (nodeNames w)
        \<longrightarrow> fst (smokeRun (Suc K) w rndSeed) = Some (Return None))
   \<and> (\<exists>st rest. smokeIteration w i g k = (st, Check IterationTop (ctxDone w k) # rest)
         \<and> (ctxDone w k \<longrightarrow> st = Stop (Return None) \<and> rest = []))
   \<and> (\<exists>res k' rest.
         uploadLoop w i txName txData (Suc retries) k address 0
           = (res, k', Check UploadRetry (ctxDone w k) # rest)
         \<and> (ctxDone w k \<longrightarrow> res = None \<and> rest = []))
   \<and> (\<exists>res k' rest.
         downloadLoop w i rxName address txData (Suc retries) k 0
           = (res, k', Check DownloadRetry (ctxDone w k) # rest)
         \<and> (ctxDone w k \<longrightarrow> res \<and> rest = []))
   \<and> (cryptoRead w i = Inr txData \<longrightarrow>
         (\<exists>st rest. afterSelect w i g' k txIdx rxIdx
                      = (st, Payload txData # Check UploadRetry (ctxDone w (Suc k)) # rest)
            \<and> (ctxDone w (Suc k) \<longrightarrow> st = Stop (Return None) \<and> rest = [])))
   \<and> (cryptoRead w i = Inr txData
        \<and> uploadLoop w i (nodeNames w ! txIdx) txData 3 (Suc k) ZeroAddress 0
            = (Some (a, d), k', tru)
        \<and> d \<noteq> 0 \<longrightarrow>
         (\<exists>st rest. afterSelect w i g' k txIdx rxIdx
                      = (st, Payload txData # tru @ Check DownloadRetry (ctxDone w k') # rest)
            \<and> (ctxDone w k' \<longrightarrow> st = Stop (Return None) \<and> rest = [])))"
proof -
  have safety: "guarded None (snd (smokeRun fuel w rndSeed))
     \<and> firedLast (snd (smokeRun fuel w rndSeed))
     \<and> ((\<exists>e \<in> set (snd (smokeRun fuel w rndSeed)). isFired e)
          \<longleftrightarrow> fst (smokeRun fuel w rndSeed) = Some (Return None))"
  proof (cases "nodesClientsError w")
    case None
    obtain r tr where R: "smokeRunLoop fuel w 0 (pseudoGenerator w rndSeed) 0 = (r, tr)"
      by (cases "smokeRunLoop fuel w 0 (pseudoGenerator w rndSeed) 0")
    from smokeRunLoop_ok [OF R, of None] show ?thesis
      using None R by (simp add: smokeRun_def)
  next
    case (Some err)
    then show ?thesis by (simp add: smokeRun_def)
  qed
  have live: "fst (smokeRun (Suc K) w rndSeed) = Some (Return None)"
    if "ctxDone w K \<and> nodesClientsError w = None
        \<and> 2 \<le> clusterSize w \<and> clusterSize w \<le> length (nodeNames w)"
    using smokeRunLoop_returns_nil [of w K "pseudoGenerator w rndSeed"] that
    by (simp add: smokeRun_def)
  note top = smokeIteration_top_query [of w i g k]
  note up = uploadLoop_pass_query [of w i txName txData retries k address]
  note down = downloadLoop_pass_query [of w i rxName address txData retries k]
  have enterUp: "\<exists>st rest. afterSelect w i g' k txIdx rxIdx
                      = (st, Payload txData # Check UploadRetry (ctxDone w (Suc k)) # rest)
            \<and> (ctxDone w (Suc k) \<longrightarrow> st = Stop (Return None) \<and> rest = [])"
    if "cryptoRead w i = Inr txData"
    using that by (rule afterSelect_upload_entry)
  have enterDown: "\<exists>st rest. afterSelect w i g' k txIdx rxIdx
                      = (st, Payload txData # tru @ Check DownloadRetry (ctxDone w k') # rest)
            \<and> (ctxDone w k' \<longrightarrow> st = Stop (Return None) \<and> rest = [])"
    if "cryptoRead w i = Inr txData
        \<and> uploadLoop w i (nodeNames w ! txIdx) txData 3 (Suc k) ZeroAddress 0
            = (Some (a, d), k', tru)
        \<and> d \<noteq> 0"
    using that afterSelect_download_entry [of w i txData txIdx k a d k' tru g' rxIdx] by blast
  show ?thesis
    apply (intro conjI impI)
    using safety apply blast
    using safety apply blast
    using safety apply blast
    using live apply blast
    using top apply blast
    using up apply blast
    using down apply blast
    using enterUp apply blast
    using enterDown apply blast
    done
qed

theorem C8_cancellation_is_clean_exit_witness:
  "smokeRun 1 (perfectNetwork [0x01] (doneFrom 0)) 7
     = (Some (Return None), [Check IterationTop True])
   \<and> smokeRun 2 (perfectNetwork [0x01] (doneFrom 1)) 7
     = (Some (Return None),
        [Check IterationTop False, Selected 1 0, Payload [0x01], Check UploadRetry True])
   \<and> smokeRun 3 (perfectNetwork [0x01] (doneFrom 2)) 7
     = (Some (Return None),
        [Check IterationTop False, Selected 1 0, Payload [0x01],
         Check UploadRetry False, UploadAttempt None, Check DownloadRetry True])
   \<and> smokeRun 4 (perfectNetwork [0x01] (doneFrom 3)) 7
     = (Some (Return None),
        [Check IterationTop False, Selected 1 0, Payload [0x01],
         Check UploadRetry False, UploadAttempt None,
         Check DownloadRetry False, DownloadAttempt None, Check IterationTop True])
   \<and> smokeRun 3 (flakyNetwork [0x01] (doneFrom 2)) 7
     = (Some (Return None),
        [Check IterationTop False, Selected 1 0, Payload [0x01],
         Check UploadRetry False, UploadAttempt (Some (Err ''upload failed'')),
         Check UploadRetry True])
   \<and> smokeRun 5 (flakyNetwork [0x01] (doneFrom 4)) 7
     = (Some (Return None),
        [Check IterationTop False, Selected 1 0, Payload [0x01],
         Check UploadRetry False, UploadAttempt (Some (Err ''upload failed'')),
         Check UploadRetry False, UploadAttempt None,
         Check DownloadRetry False, DownloadAttempt (Some (Err ''download failed'')),
         Check DownloadRetry True])
   \<and> guarded None (snd (smokeRun 5 (flakyNetwork [0x01] (doneFrom 4)) 7))
   \<and> firedLast (snd (smokeRun 5 (flakyNetwork [0x01] (doneFrom 4)) 7))"
proof -
  have hp: "ctxDone (perfectNetwork [0x01] (doneFrom K)) K
           \<and> nodesClientsError (perfectNetwork [0x01] (doneFrom K)) = None
           \<and> 2 \<le> clusterSize (perfectNetwork [0x01] (doneFrom K))
           \<and> clusterSize (perfectNetwork [0x01] (doneFrom K))
               \<le> length (nodeNames (perfectNetwork [0x01] (doneFrom K)))" for K
    by (simp add: perfectNetwork_fields doneFrom_def)
  have hf: "ctxDone (flakyNetwork [0x01] (doneFrom K)) K
           \<and> nodesClientsError (flakyNetwork [0x01] (doneFrom K)) = None
           \<and> 2 \<le> clusterSize (flakyNetwork [0x01] (doneFrom K))
           \<and> clusterSize (flakyNetwork [0x01] (doneFrom K))
               \<le> length (nodeNames (flakyNetwork [0x01] (doneFrom K)))" for K
    by (simp add: flakyNetwork_def doneFrom_def)
  have e: "Suc 0 = 1" "Suc 1 = 2" "Suc 2 = 3" "Suc 3 = 4" "Suc 4 = 5" by simp_all
  have f0: "fst (smokeRun 1 (perfectNetwork [0x01] (doneFrom 0)) 7) = Some (Return None)"
    using C8_cancellation_is_clean_exit [where w = "perfectNetwork [0x01] (doneFrom 0)"
        and K = 0 and rndSeed = 7] hp [of 0]
    by (simp only: e simp_thms)
  have f1: "fst (smokeRun 2 (perfectNetwork [0x01] (doneFrom 1)) 7) = Some (Return None)"
    using C8_cancellation_is_clean_exit [where w = "perfectNetwork [0x01] (doneFrom 1)"
        and K = 1 and rndSeed = 7] hp [of 1]
    by (simp only: e simp_thms)
  have f2: "fst (smokeRun 3 (perfectNetwork [0x01] (doneFrom 2)) 7) = Some (Return None)"
    using C8_cancellation_is_clean_exit [where w = "perfectNetwork [0x01] (doneFrom 2)"
        and K = 2 and rndSeed = 7] hp [of 2]
    by (simp only: e simp_thms)
  have f3: "fst (smokeRun 4 (perfectNetwork [0x01] (doneFrom 3)) 7) = Some (Return None)"
    using C8_cancellation_is_clean_exit [where w = "perfectNetwork [0x01] (doneFrom 3)"
        and K = 3 and rndSeed = 7] hp [of 3]
    by (simp only: e simp_thms)
  have f4: "fst (smokeRun 3 (flakyNetwork [0x01] (doneFrom 2)) 7) = Some (Return None)"
    using C8_cancellation_is_clean_exit [where w = "flakyNetwork [0x01] (doneFrom 2)"
        and K = 2 and rndSeed = 7] hf [of 2]
    by (simp only: e simp_thms)
  have f5: "fst (smokeRun 5 (flakyNetwork [0x01] (doneFrom 4)) 7) = Some (Return None)"
      and g5: "guarded None (snd (smokeRun 5 (flakyNetwork [0x01] (doneFrom 4)) 7))"
      and l5: "firedLast (snd (smokeRun 5 (flakyNetwork [0x01] (doneFrom 4)) 7))"
    using C8_cancellation_is_clean_exit [where w = "flakyNetwork [0x01] (doneFrom 4)"
        and K = 4 and rndSeed = 7 and fuel = 5] hf [of 4]
    by (simp_all only: e simp_thms)
  have t0: "snd (smokeRun 1 (perfectNetwork [0x01] (doneFrom 0)) 7)
              = [Check IterationTop True]"
    by code_simp
  have t1: "snd (smokeRun 2 (perfectNetwork [0x01] (doneFrom 1)) 7)
              = [Check IterationTop False, Selected 1 0, Payload [0x01], Check UploadRetry True]"
    by code_simp
  have t2: "snd (smokeRun 3 (perfectNetwork [0x01] (doneFrom 2)) 7)
              = [Check IterationTop False, Selected 1 0, Payload [0x01],
                 Check UploadRetry False, UploadAttempt None, Check DownloadRetry True]"
    by code_simp
  have t3: "snd (smokeRun 4 (perfectNetwork [0x01] (doneFrom 3)) 7)
              = [Check IterationTop False, Selected 1 0, Payload [0x01],
                 Check UploadRetry False, UploadAttempt None,
                 Check DownloadRetry False, DownloadAttempt None, Check IterationTop True]"
    by code_simp
  have t4: "snd (smokeRun 3 (flakyNetwork [0x01] (doneFrom 2)) 7)
              = [Check IterationTop False, Selected 1 0, Payload [0x01],
                 Check UploadRetry False, UploadAttempt (Some (Err ''upload failed'')),
                 Check UploadRetry True]"
    by code_simp
  have t5: "snd (smokeRun 5 (flakyNetwork [0x01] (doneFrom 4)) 7)
              = [Check IterationTop False, Selected 1 0, Payload [0x01],
                 Check UploadRetry False, UploadAttempt (Some (Err ''upload failed'')),
                 Check UploadRetry False, UploadAttempt None,
                 Check DownloadRetry False, DownloadAttempt (Some (Err ''download failed'')),
                 Check DownloadRetry True]"
    by code_simp
  have pair: "\<And>x a b. fst x = a \<Longrightarrow> snd x = b \<Longrightarrow> x = (a, b)" by auto
  show ?thesis
    using pair [OF f0 t0] pair [OF f1 t1] pair [OF f2 t2] pair [OF f3 t3] pair [OF f4 t4]
      pair [OF f5 t5] g5 l5
    by (simp only: simp_thms)
qed

text \<open>
  Claim C2, as amended. What the seed fixes, in each protocol, whatever the network, the
  cancellation signal and the order of Go's map iteration do: two runs with the same seed
  agree for as long as both run.

  RoundTripCheck: the sequence of uploader and downloader choices, given the same cluster
  size and node names. RecoveryCheck: the sequence of chunks that \<open>getNodes\<close> draws in
  iteration \<open>i\<close>. ReplicationCheck: the sequence of uploaders, their chunks and the
  closest node of each chunk, given the same overlays, light node names,
  \<open>UploadNodeCount\<close> and \<open>ChunksPerNode\<close>.

  Not part of this: the payload of RoundTripCheck, which is read from \<open>crypto/rand\<close>,
  and in RecoveryCheck the clients A, B and C, the number of chunks drawn and the chunk
  that is used, which follow the order of the \<open>range\<close> loops of
  \<open>findFarthestNodes\<close>.
\<close>

theorem C2_seed_fixes_roles_and_chunks:
  assumes "pseudoGenerator w1 = pseudoGenerator w2" and "source w1 = source w2"
    and "clusterSize w1 = clusterSize w2" and "nodeNames w1 = nodeNames w2"
    and "flattenOverlaysResult l1 = flattenOverlaysResult l2"
    and "lightNodeNames l1 = lightNodeNames l2" and "uploadNodeCount l1 = uploadNodeCount l2"
    and "chunksPerNode l1 = chunksPerNode l2"
  shows "(prefix (filter isRole (snd (smokeRun fuel1 w1 rndSeed)))
                 (filter isRole (snd (smokeRun fuel2 w2 rndSeed)))
          \<or> prefix (filter isRole (snd (smokeRun fuel2 w2 rndSeed)))
                    (filter isRole (snd (smokeRun fuel1 w1 rndSeed))))
         \<and> (prefix (snd (getNodesInRun fuel3 src ng1 seed numberOfChunks i))
                    (snd (getNodesInRun fuel4 src ng2 seed numberOfChunks i))
            \<or> prefix (snd (getNodesInRun fuel4 src ng2 seed numberOfChunks i))
                      (snd (getNodesInRun fuel3 src ng1 seed numberOfChunks i)))
         \<and> (prefix (snd (checkLightChunks src l1 seed)) (snd (checkLightChunks src l2 seed))
            \<or> prefix (snd (checkLightChunks src l2 seed)) (snd (checkLightChunks src l1 seed)))"
proof -
  let ?R = "rolesSeq (source w1) (clusterSize w1) (length (nodeNames w1)) (pseudoGenerator w1 rndSeed)"
  have p1: "prefix (filter isRole (snd (smokeRun fuel1 w1 rndSeed))) (?R fuel1)"
    by (rule smokeRun_roles_prefix)
  have p2: "prefix (filter isRole (snd (smokeRun fuel2 w2 rndSeed))) (?R fuel2)"
    using smokeRun_roles_prefix [of fuel2 w2 rndSeed] assms(1-4) by simp
  have roles: "prefix (filter isRole (snd (smokeRun fuel1 w1 rndSeed)))
                 (filter isRole (snd (smokeRun fuel2 w2 rndSeed)))
          \<or> prefix (filter isRole (snd (smokeRun fuel2 w2 rndSeed)))
                    (filter isRole (snd (smokeRun fuel1 w1 rndSeed)))"
    by (rule prefix_comparable [where f = ?R, OF p1 p2]) (rule rolesSeq_mono)
  let ?D = "seededDraws src l1 seed"
  have q1: "prefix (snd (checkLightChunks src l1 seed)) ?D"
    by (rule checkLightChunks_prefix)
  have q2: "prefix (snd (checkLightChunks src l2 seed)) ?D"
    using checkLightChunks_prefix [of src l2 seed] seededDraws_cong [OF assms(5-8), of src seed]
    by simp
  have light: "prefix (snd (checkLightChunks src l1 seed)) (snd (checkLightChunks src l2 seed))
            \<or> prefix (snd (checkLightChunks src l2 seed)) (snd (checkLightChunks src l1 seed))"
    using q1 q2 by (rule prefix_same_cases)
  show ?thesis
    using roles getNodesInRun_comparable [of fuel3 src ng1 seed numberOfChunks i fuel4 ng2] light
    by blast
qed

theorem C2_seed_fixes_roles_and_chunks_witness:
  "(prefix (filter isRole (snd (smokeRun 2 (perfectNetwork [0x01] (doneFrom 9)) 7)))
           (filter isRole (snd (smokeRun 3 (perfectNetwork [0x02] (doneFrom 2)) 7)))
    \<or> prefix (filter isRole (snd (smokeRun 3 (perfectNetwork [0x02] (doneFrom 2)) 7)))
              (filter isRole (snd (smokeRun 2 (perfectNetwork [0x01] (doneFrom 9)) 7))))
   \<and> (prefix (snd (getNodesInRun 2 countingChunks (fourNodeGroup fourNodes) 0 1 0))
              (snd (getNodesInRun 2 countingChunks
                      (fourNodeGroup [(''n1'', [0x01]), (''n2'', [0xFE]),
                                      (''n0'', [0x00]), (''n3'', [0xFF])]) 0 1 0))
       \<or> prefix (snd (getNodesInRun 2 countingChunks
                         (fourNodeGroup [(''n1'', [0x01]), (''n2'', [0xFE]),
                                         (''n0'', [0x00]), (''n3'', [0xFF])]) 0 1 0))
                 (snd (getNodesInRun 2 countingChunks (fourNodeGroup fourNodes) 0 1 0)))
   \<and> (prefix (snd (checkLightChunks countingChunks
                      (lightCluster FoundReplica) 0))
              (snd (checkLightChunks countingChunks (lightCluster MissingReplica) 0))
       \<or> prefix (snd (checkLightChunks countingChunks (lightCluster MissingReplica) 0))
                 (snd (checkLightChunks countingChunks
                         (lightCluster FoundReplica) 0)))
   \<and> snd (getNodesInRun 2 countingChunks (fourNodeGroup fourNodes) 0 1 0)
       = [byteChunk 0, byteChunk 1]
   \<and> snd (getNodesInRun 2 countingChunks
             (fourNodeGroup [(''n1'', [0x01]), (''n2'', [0xFE]),
                             (''n0'', [0x00]), (''n3'', [0xFF])]) 0 1 0)
       = [byteChunk 0]
   \<and> snd (checkLightChunks countingChunks (lightCluster FoundReplica) 0)
       = [Drawn ''light-0'' (byteChunk 0), Closest ''n0'' [0x00],
          Drawn ''light-0'' (byteChunk 1), Closest ''n1'' [0x01]]
   \<and> snd (checkLightChunks countingChunks (lightCluster MissingReplica) 0)
       = [Drawn ''light-0'' (byteChunk 0), Closest ''n0'' [0x00]]"
proof -
  have h: "pseudoGenerator (perfectNetwork [0x01] (doneFrom 9))
             = pseudoGenerator (perfectNetwork [0x02] (doneFrom 2))"
    "source (perfectNetwork [0x01] (doneFrom 9)) = source (perfectNetwork [0x02] (doneFrom 2))"
    "clusterSize (perfectNetwork [0x01] (doneFrom 9))
       = clusterSize (perfectNetwork [0x02] (doneFrom 2))"
    "nodeNames (perfectNetwork [0x01] (doneFrom 9))
       = nodeNames (perfectNetwork [0x02] (doneFrom 2))"
    by (simp_all add: perfectNetwork_fields)
  have l: "flattenOverlaysResult (lightCluster FoundReplica)
             = flattenOverlaysResult (lightCluster MissingReplica)"
    "lightNodeNames (lightCluster FoundReplica)
             = lightNodeNames (lightCluster MissingReplica)"
    "uploadNodeCount (lightCluster FoundReplica)
       = uploadNodeCount (lightCluster MissingReplica)"
    "chunksPerNode (lightCluster FoundReplica)
       = chunksPerNode (lightCluster MissingReplica)"
    by (simp_all add: lightCluster_def)
  note th = C2_seed_fixes_roles_and_chunks [OF h l, of 2 7 3 2 countingChunks
      "fourNodeGroup fourNodes" 0 1 0 2
      "fourNodeGroup [(''n1'', [0x01]), (''n2'', [0xFE]), (''n0'', [0x00]), (''n3'', [0xFF])]"]
  show ?thesis
    using th
    by (simp only: demo_getNodes_first demo_getNodes_second demo_light_all demo_light_one
          snd_conv simp_thms)
qed

text \<open>
  Counterexample to claim C2 as stated. Two RoundTripCheck runs with the same seed on the
  same cluster and the same network, whose payloads differ because \<open>crypto/rand\<close>
  delivered different bytes. And two calls of \<open>getNodes\<close> with the same seed on the
  same four-node snapshot, in which the \<open>range\<close> loops of \<open>findFarthestNodes\<close>
  visit the map in two different orders: the clients A, B and C differ, the second call
  draws one chunk where the first draws two, and the chunk that is used differs.
\<close>

theorem C2_same_seed_counterexample:
  "pseudoGenerator (perfectNetwork [0x01] (doneFrom 9)) 7
     = pseudoGenerator (perfectNetwork [0x02] (doneFrom 9)) 7
   \<and> clusterSize (perfectNetwork [0x01] (doneFrom 9))
     = clusterSize (perfectNetwork [0x02] (doneFrom 9))
   \<and> nodeNames (perfectNetwork [0x01] (doneFrom 9))
     = nodeNames (perfectNetwork [0x02] (doneFrom 9))
   \<and> filter isPayload (snd (smokeRun 1 (perfectNetwork [0x01] (doneFrom 9)) 7))
     = [Payload [0x01]]
   \<and> filter isPayload (snd (smokeRun 1 (perfectNetwork [0x02] (doneFrom 9)) 7))
     = [Payload [0x02]]
   \<and> ngOverlays (fourNodeGroup fourNodes)
     = ngOverlays (fourNodeGroup [(''n1'', [0x01]), (''n2'', [0xFE]),
                                  (''n0'', [0x00]), (''n3'', [0xFF])])
   \<and> ranges_over (map_of fourNodes) (ngOuter (fourNodeGroup fourNodes))
   \<and> ranges_over (map_of fourNodes)
        (ngOuter (fourNodeGroup [(''n1'', [0x01]), (''n2'', [0xFE]),
                                 (''n0'', [0x00]), (''n3'', [0xFF])]))
   \<and> getNodesInRun 2 countingChunks (fourNodeGroup fourNodes) 0 1 0
     = (Some (Nodes (Some ''n0'') (Some ''n1'') (Some ''n3'') (byteChunk 1)),
        [byteChunk 0, byteChunk 1])
   \<and> getNodesInRun 2 countingChunks
        (fourNodeGroup [(''n1'', [0x01]), (''n2'', [0xFE]), (''n0'', [0x00]), (''n3'', [0xFF])])
        0 1 0
     = (Some (Nodes (Some ''n1'') (Some ''n0'') (Some ''n2'') (byteChunk 0)), [byteChunk 0])"
proof -
  have a: "filter isPayload (snd (smokeRun 1 (perfectNetwork [0x01] (doneFrom 9)) 7))
           = [Payload [0x01]]"
    by code_simp
  have b: "filter isPayload (snd (smokeRun 1 (perfectNetwork [0x02] (doneFrom 9)) 7))
           = [Payload [0x02]]"
    by code_simp
  have m: "map_of [(''n1'', [0x01 :: byte]), (''n2'', [0xFE]), (''n0'', [0x00]), (''n3'', [0xFF])]
           = map_of fourNodes"
    by (rule ext) (simp add: fourNodes_def)
  have r: "ranges_over (map_of fourNodes) (ngOuter (fourNodeGroup fourNodes))"
    "ranges_over (map_of fourNodes)
        (ngOuter (fourNodeGroup [(''n1'', [0x01]), (''n2'', [0xFE]),
                                 (''n0'', [0x00]), (''n3'', [0xFF])]))"
    using m by (simp_all add: ranges_over_def fourNodeGroup_def fourNodes_def)
  have o: "ngOverlays (fourNodeGroup fourNodes)
     = ngOverlays (fourNodeGroup [(''n1'', [0x01]), (''n2'', [0xFE]),
                                  (''n0'', [0x00]), (''n3'', [0xFF])])"
    by (simp add: fourNodeGroup_def)
  have c: "getNodesInRun 2 countingChunks (fourNodeGroup fourNodes) 0 1 0
     = (Some (Nodes (Some ''n0'') (Some ''n1'') (Some ''n3'') (byteChunk 1)),
        [byteChunk 0, byteChunk 1])"
    by code_simp
  have d: "getNodesInRun 2 countingChunks
        (fourNodeGroup [(''n1'', [0x01]), (''n2'', [0xFE]), (''n0'', [0x00]), (''n3'', [0xFF])])
        0 1 0
     = (Some (Nodes (Some ''n1'') (Some ''n0'') (Some ''n2'') (byteChunk 0)), [byteChunk 0])"
    by code_simp
  have f: "pseudoGenerator (perfectNetwork [0x01] (doneFrom 9)) 7
     = pseudoGenerator (perfectNetwork [0x02] (doneFrom 9)) 7
   \<and> clusterSize (perfectNetwork [0x01] (doneFrom 9))
     = clusterSize (perfectNetwork [0x02] (doneFrom 9))
   \<and> nodeNames (perfectNetwork [0x01] (doneFrom 9))
     = nodeNames (perfectNetwork [0x02] (doneFrom 9))"
    by (simp add: perfectNetwork_fields)
  show ?thesis using a b c d f o r by (simp only: simp_thms)
qed

text \<open>
  Claim C1, evaluated on the code. The poll for the chunk on node B counts only failed
  \<open>HasChunk\<close> calls. When node B keeps answering "not present" without an error, no
  number of passes ends the loop and \<open>Run\<close> does not return. When every call fails,
  \<open>Run\<close> returns the error after eleven calls, not ten.
\<close>

theorem C1_poll_on_B_not_bounded:
  "repairRun fuel (repairWorld (Inr False) [] (Inr [])) = None
   \<and> repairRun 12 (repairWorld (Inl (Err ''unreachable'')) [] (Inr [])) =
       Some (Return (Some (Err ''could not get chunk even after several attempts'')),
             concat (replicate 11 [HasChunk ''bee-1'' (Inl (Err ''unreachable'')), Sleep 100]))"
  using repairRun_stuck [of fuel] repairRun_eleven_attempts by simp

text \<open>
  Claim C6. Take an iteration that reaches the download that triggers recovery: its nodes
  were found, A has a non-empty overlay address, the batch and the upload succeeded, the
  poll on B ended with the chunk present, the first download from C returned the chunk
  data and the chunk was removed from all nodes. If the triggering download returns an
  error whose message is not the expected "try again later" message for the chunk
  address, the iteration ends there and \<open>Run\<close> returns that error wrapped as "chunk
  recovery not triggered". On success, or on the error with exactly that message, the
  next call is the re-upload to A.
\<close>

theorem C6_trigger_recovery_fatal_iff:
  assumes "getNodesResult w i = Inr (nodeA, nodeB, nodeC, c)"
    and "overlay w t nodeA = Inr addressA"
    and "addressA \<noteq> []"
    and "createPostageBatch w (Suc t) nodeA = Inr batchID"
    and "uploadChunk w (Suc (Suc t)) nodeA (chunkData c) = Inr ref"
    and "pollPresentOnB fuel w (Suc (Suc (Suc t))) 0 nodeB ref = Some (None, t1, tr1)"
    and "downloadChunk w t1 nodeC ref [] = Inr (chunkData c)"
    and "deleteChunkFromAllNodes w (Suc t1) c = (None, t2, tr2)"
  shows "case downloadChunk w t2 nodeC (chunkAddress c) (take 2 (hexString addressA)) of
           Inl e \<Rightarrow>
             if message e \<noteq> errMessage c
               then repairIteration fuel w i t
                      = Some (Failed (Wrap ''chunk recovery not triggered: '' e), Suc t2,
                              tr1 @ Download nodeC [] None # tr2
                                @ [Download nodeC (take 2 (hexString addressA)) (Some e)])
                 \<and> repairLoop fuel w i (Suc remaining) t
                      = Some (Return (Some (Wrap ''chunk recovery not triggered: '' e)),
                              tr1 @ Download nodeC [] None # tr2
                                @ [Download nodeC (take 2 (hexString addressA)) (Some e)])
                 \<and> (i = 0 \<and> t = 0 \<and> nodeGroupError w = None
                      \<and> numberOfChunksToRepair w = Suc remaining
                      \<longrightarrow> repairRun fuel w
                            = Some (Return (Some (Wrap ''chunk recovery not triggered: '' e)),
                                    tr1 @ Download nodeC [] None # tr2
                                      @ [Download nodeC (take 2 (hexString addressA)) (Some e)]))
             else \<exists>r t' x rest.
                    repairIteration fuel w i t
                      = Some (r, t', tr1 @ Download nodeC [] None # tr2
                                       @ Download nodeC (take 2 (hexString addressA)) (Some e)
                                         # Reupload nodeA x # rest)
         | Inr data2 \<Rightarrow>
             \<exists>r t' x rest.
               repairIteration fuel w i t
                 = Some (r, t', tr1 @ Download nodeC [] None # tr2
                                  @ Download nodeC (take 2 (hexString addressA)) None
                                    # Reupload nodeA x # rest)"
proof -
  note reach = repairIteration_reaches_trigger [OF assms(1,2,4,5,6,7,8)]
  note trig = recoverAfterDelete_trigger [OF assms(3), where w = w and t = t2
      and nodeC = nodeC and c = c and nodeA = nodeA]
  show ?thesis
  proof (cases "downloadChunk w t2 nodeC (chunkAddress c) (take 2 (hexString addressA))")
    case (Inl e)
    show ?thesis
    proof (cases "message e \<noteq> errMessage c")
      case True
      have R: "recoverAfterDelete w t2 nodeA nodeC addressA c
                 = (Failed (Wrap ''chunk recovery not triggered: '' e), Suc t2,
                    [Download nodeC (take 2 (hexString addressA)) (Some e)])"
        using trig Inl True by simp
      have it: "repairIteration fuel w i t
                  = Some (Failed (Wrap ''chunk recovery not triggered: '' e), Suc t2,
                          tr1 @ Download nodeC [] None # tr2
                            @ [Download nodeC (take 2 (hexString addressA)) (Some e)])"
        using reach [OF R] .
      have lp: "repairLoop fuel w i (Suc remaining) t
                  = Some (Return (Some (Wrap ''chunk recovery not triggered: '' e)),
                          tr1 @ Download nodeC [] None # tr2
                            @ [Download nodeC (take 2 (hexString addressA)) (Some e)])"
        using it by (rule repairLoop_failed)
      have run: "repairRun fuel w
                  = Some (Return (Some (Wrap ''chunk recovery not triggered: '' e)),
                          tr1 @ Download nodeC [] None # tr2
                            @ [Download nodeC (take 2 (hexString addressA)) (Some e)])"
        if "i = 0 \<and> t = 0 \<and> nodeGroupError w = None \<and> numberOfChunksToRepair w = Suc remaining"
        using lp that by (simp add: repairRun_def)
      show ?thesis using Inl True it lp run by simp
    next
      case False
      then obtain r t' x rest where
        R: "recoverAfterDelete w t2 nodeA nodeC addressA c
              = (r, t', Download nodeC (take 2 (hexString addressA)) (Some e)
                        # Reupload nodeA x # rest)"
        using trig Inl by auto
      show ?thesis using Inl False reach [OF R] by auto
    qed
  next
    case (Inr data2)
    then obtain r t' x rest where
      R: "recoverAfterDelete w t2 nodeA nodeC addressA c
            = (r, t', Download nodeC (take 2 (hexString addressA)) None
                      # Reupload nodeA x # rest)"
      using trig by auto
    show ?thesis using Inr reach [OF R] by auto
  qed
qed

theorem C6_trigger_recovery_fatal_iff_witness:
  "repairRun 1 (repairWorld (Inr True) [] (Inl (Err ''boom'')))
     = Some (Return (Some (Wrap ''chunk recovery not triggered: '' (Err ''boom''))),
         [HasChunk ''bee-1'' (Inr True), Download ''bee-2'' [] None,
          NodesClients (Inr [''bee-0'', ''bee-1'', ''bee-2'']),
          Remove ''bee-0'' None, Remove ''bee-1'' None, Remove ''bee-2'' None,
          Download ''bee-2'' ''10'' (Some (Err ''boom''))])
   \<and> (\<exists>r t' x rest.
         repairIteration 1
           (repairWorld (Inr True) [] (Inl (Err ''download chunk 2a: try again later''))) 0 0
         = Some (r, t',
             [HasChunk ''bee-1'' (Inr True), Download ''bee-2'' [] None,
              NodesClients (Inr [''bee-0'', ''bee-1'', ''bee-2'']),
              Remove ''bee-0'' None, Remove ''bee-1'' None, Remove ''bee-2'' None,
              Download ''bee-2'' ''10'' (Some (Err ''download chunk 2a: try again later'')),
              Reupload ''bee-0'' x] @ rest))
   \<and> (\<exists>r t' x rest.
         repairIteration 1 (repairWorld (Inr True) [] (Inr [0x2A])) 0 0
         = Some (r, t',
             [HasChunk ''bee-1'' (Inr True), Download ''bee-2'' [] None,
              NodesClients (Inr [''bee-0'', ''bee-1'', ''bee-2'']),
              Remove ''bee-0'' None, Remove ''bee-1'' None, Remove ''bee-2'' None,
              Download ''bee-2'' ''10'' None, Reupload ''bee-0'' x] @ rest))"
proof -
  have ne: "[0x10 :: byte] \<noteq> []" by simp
  have g: "\<And>trig. getNodesResult (repairWorld (Inr True) [] trig) 0
             = Inr (''bee-0'', ''bee-1'', ''bee-2'', demoChunk)"
    by (simp add: repairWorld_def)
  have o: "\<And>trig. overlay (repairWorld (Inr True) [] trig) 0 ''bee-0'' = Inr [0x10]"
    by (simp add: repairWorld_def)
  have b: "\<And>trig. createPostageBatch (repairWorld (Inr True) [] trig) (Suc 0) ''bee-0''
             = Inr ''batch''"
    by (simp add: repairWorld_def)
  have u: "\<And>trig. uploadChunk (repairWorld (Inr True) [] trig) (Suc (Suc 0)) ''bee-0''
                    (chunkData demoChunk) = Inr [0x2A]"
    by (simp add: repairWorld_def demoChunk_def)
  have p: "\<And>trig. pollPresentOnB 1 (repairWorld (Inr True) [] trig) (Suc (Suc (Suc 0))) 0
                    ''bee-1'' [0x2A] = Some (None, 4, [HasChunk ''bee-1'' (Inr True)])"
    using demo_poll by (simp add: numeral_3_eq_3)
  have d1: "\<And>trig. downloadChunk (repairWorld (Inr True) [] trig) 4 ''bee-2'' [0x2A] []
              = Inr (chunkData demoChunk)"
    by (simp add: repairWorld_def demoChunk_def)
  have dl: "\<And>trig. deleteChunkFromAllNodes (repairWorld (Inr True) [] trig) (Suc 4) demoChunk
              = (None, 9, [NodesClients (Inr [''bee-0'', ''bee-1'', ''bee-2'']),
                  Remove ''bee-0'' None, Remove ''bee-1'' None, Remove ''bee-2'' None])"
    using demo_delete by simp
  have d: "\<And>trig t node a.
             downloadChunk (repairWorld (Inr True) [] trig) t node a ''10'' = trig"
    by (simp add: repairWorld_def)
  have m: "message (Err ''boom'') \<noteq> ''download chunk 2a: try again later''" by simp
  have f: "\<And>trig. nodeGroupError (repairWorld (Inr True) [] trig) = None
             \<and> numberOfChunksToRepair (repairWorld (Inr True) [] trig) = Suc 0"
    by (simp add: repairWorld_def)
  note th = C6_trigger_recovery_fatal_iff [OF g o ne b u p d1 dl, where remaining = 0]
  have one: "repairRun 1 (repairWorld (Inr True) [] (Inl (Err ''boom'')))
     = Some (Return (Some (Wrap ''chunk recovery not triggered: '' (Err ''boom''))),
         [HasChunk ''bee-1'' (Inr True), Download ''bee-2'' [] None,
          NodesClients (Inr [''bee-0'', ''bee-1'', ''bee-2'']),
          Remove ''bee-0'' None, Remove ''bee-1'' None, Remove ''bee-2'' None,
          Download ''bee-2'' ''10'' (Some (Err ''boom''))])"
    using th [of "Inl (Err ''boom'')"] m f [of "Inl (Err ''boom'')"]
    by (simp add: demo_hint demo_errMessage d)
  have two: "\<exists>r t' x rest.
         repairIteration 1
           (repairWorld (Inr True) [] (Inl (Err ''download chunk 2a: try again later''))) 0 0
         = Some (r, t',
             [HasChunk ''bee-1'' (Inr True), Download ''bee-2'' [] None,
              NodesClients (Inr [''bee-0'', ''bee-1'', ''bee-2'']),
              Remove ''bee-0'' None, Remove ''bee-1'' None, Remove ''bee-2'' None,
              Download ''bee-2'' ''10'' (Some (Err ''download chunk 2a: try again later'')),
              Reupload ''bee-0'' x] @ rest)"
    using th [of "Inl (Err ''download chunk 2a: try again later'')"]
    by (simp add: demo_hint demo_errMessage d)
  have three: "\<exists>r t' x rest.
         repairIteration 1 (repairWorld (Inr True) [] (Inr [0x2A])) 0 0
         = Some (r, t',
             [HasChunk ''bee-1'' (Inr True), Download ''bee-2'' [] None,
              NodesClients (Inr [''bee-0'', ''bee-1'', ''bee-2'']),
              Remove ''bee-0'' None, Remove ''bee-1'' None, Remove ''bee-2'' None,
              Download ''bee-2'' ''10'' None, Reupload ''bee-0'' x] @ rest)"
    using th [of "Inr [0x2A]"]
    by (simp add: demo_hint demo_errMessage d)
  show ?thesis using one two three by blast
qed

text \<open>
  Claim C7, as amended. In an iteration that re-uploads the chunk, and in every completed
  iteration, the trace is the poll on B, the first download from C, the
  \<open>NodesClients\<close> call of \<open>deleteChunkFromAllNodes\<close>, a successful
  \<open>RemoveChunk\<close> on each node that call listed, in its order, and then the rest with the
  re-upload: nothing is removed or re-uploaded before the listing and nothing is removed
  after it. If a removal fails, it is the last call of the iteration, the iteration
  returns that error, nothing is re-uploaded, and \<open>Run\<close> returns the error.
\<close>

theorem C7_removal_precedes_reupload:
  assumes "repairIteration fuel w i t = Some (r, t', tr)"
  shows "((r = Completed \<or> (\<exists>e \<in> set tr. isReupload e)) \<longrightarrow>
            (\<exists>nodeA nodeB nodeC c ref t1 tr1 nodes after.
               getNodesResult w i = Inr (nodeA, nodeB, nodeC, c)
               \<and> pollPresentOnB fuel w (Suc (Suc (Suc t))) 0 nodeB ref = Some (None, t1, tr1)
               \<and> nodesClients w (Suc t1) = Inr nodes
               \<and> tr = tr1 @ Download nodeC [] None # NodesClients (Inr nodes)
                        # map (\<lambda>node. Remove node None) nodes @ after
               \<and> (\<forall>e \<in> set tr1. \<not> isRemove e \<and> \<not> isReupload e \<and> \<not> isNodesClients e)
               \<and> (\<forall>e \<in> set after. \<not> isRemove e \<and> \<not> isNodesClients e)
               \<and> (\<exists>e \<in> set after. isReupload e)))
         \<and> (\<forall>node x. Remove node (Some x) \<in> set tr \<longrightarrow>
               r = Failed x \<and> last tr = Remove node (Some x)
               \<and> (\<forall>e \<in> set tr. \<not> isReupload e)
               \<and> repairLoop fuel w i (Suc remaining) t = Some (Return (Some x), tr))"
  using repairIteration_stages [OF assms]
proof
  assume q: "r \<noteq> Completed
             \<and> (\<forall>e \<in> set tr. \<not> isRemove e \<and> \<not> isReupload e \<and> \<not> isNodesClients e)"
  have "Remove node (Some x) \<notin> set tr" for node x
  proof
    assume "Remove node (Some x) \<in> set tr"
    then have "\<not> isRemove (Remove node (Some x))" using q by blast
    then show False by simp
  qed
  then show ?thesis using q by blast
next
  assume "\<exists>nodeA nodeB nodeC c addressA batchID ref t1 tr1 tr2.
               getNodesResult w i = Inr (nodeA, nodeB, nodeC, c)
               \<and> overlay w t nodeA = Inr addressA
               \<and> createPostageBatch w (Suc t) nodeA = Inr batchID
               \<and> uploadChunk w (Suc (Suc t)) nodeA (chunkData c) = Inr ref
               \<and> pollPresentOnB fuel w (Suc (Suc (Suc t))) 0 nodeB ref = Some (None, t1, tr1)
               \<and> afterPresentOnB w t1 nodeA nodeC addressA ref c = (r, t', tr2)
               \<and> tr = tr1 @ tr2"
  then obtain nodeA nodeB nodeC c addressA ref t1 tr1 tr2 where
    G: "getNodesResult w i = Inr (nodeA, nodeB, nodeC, c)"
    and P: "pollPresentOnB fuel w (Suc (Suc (Suc t))) 0 nodeB ref = Some (None, t1, tr1)"
    and A: "afterPresentOnB w t1 nodeA nodeC addressA ref c = (r, t', tr2)"
    and tr: "tr = tr1 @ tr2"
    by blast
  note p = pollPresentOnB_events [OF P]
  have re: "(\<exists>e \<in> set tr. isReupload e) \<longleftrightarrow> (\<exists>e \<in> set tr2. isReupload e)"
    using p tr by auto
  have first: "\<exists>nodeA nodeB nodeC c ref t1 tr1 nodes after.
               getNodesResult w i = Inr (nodeA, nodeB, nodeC, c)
               \<and> pollPresentOnB fuel w (Suc (Suc (Suc t))) 0 nodeB ref = Some (None, t1, tr1)
               \<and> nodesClients w (Suc t1) = Inr nodes
               \<and> tr = tr1 @ Download nodeC [] None # NodesClients (Inr nodes)
                        # map (\<lambda>node. Remove node None) nodes @ after
               \<and> (\<forall>e \<in> set tr1. \<not> isRemove e \<and> \<not> isReupload e \<and> \<not> isNodesClients e)
               \<and> (\<forall>e \<in> set after. \<not> isRemove e \<and> \<not> isNodesClients e)
               \<and> (\<exists>e \<in> set after. isReupload e)"
    if "r = Completed \<or> (\<exists>e \<in> set tr. isReupload e)"
  proof -
    from that re have "r = Completed \<or> (\<exists>e \<in> set tr2. isReupload e)" by blast
    from afterPresentOnB_removed [OF A this] obtain nodes after where
      h: "nodesClients w (Suc t1) = Inr nodes"
         "tr2 = Download nodeC [] None # NodesClients (Inr nodes)
                  # map (\<lambda>node. Remove node None) nodes @ after"
         "\<forall>e \<in> set after. \<not> isRemove e \<and> \<not> isNodesClients e"
         "\<exists>e \<in> set after. isReupload e"
      by blast
    have "tr = tr1 @ Download nodeC [] None # NodesClients (Inr nodes)
                 # map (\<lambda>node. Remove node None) nodes @ after"
      using tr h(2) by simp
    then show ?thesis using G P h(1,3,4) p by blast
  qed
  have second: "r = Failed x \<and> last tr = Remove node (Some x)
               \<and> (\<forall>e \<in> set tr. \<not> isReupload e)
               \<and> repairLoop fuel w i (Suc remaining) t = Some (Return (Some x), tr)"
    if "Remove node (Some x) \<in> set tr" for node x
  proof -
    have "Remove node (Some x) \<in> set tr1 \<or> Remove node (Some x) \<in> set tr2"
      using that tr by auto
    then have m: "Remove node (Some x) \<in> set tr2"
    proof
      assume "Remove node (Some x) \<in> set tr1"
      then have "\<not> isRemove (Remove node (Some x))" using p by blast
      then show ?thesis by simp
    qed
    note f = afterPresentOnB_failed_removal [OF A m]
    have l: "last tr = Remove node (Some x)" using f tr by simp
    have n: "\<forall>e \<in> set tr. \<not> isReupload e" using f p tr by auto
    have "repairLoop fuel w i (Suc remaining) t = Some (Return (Some x), tr)"
      using assms f by (simp add: repairLoop_failed)
    then show ?thesis using f l n by blast
  qed
  show ?thesis using first second by blast
qed

theorem C7_removal_precedes_reupload_witness:
  "(\<exists>after.
      repairIteration 1 (repairWorld (Inr True) [] (Inr [0x2A])) 0 0
        = Some (Completed, 13,
            [HasChunk ''bee-1'' (Inr True), Download ''bee-2'' [] None,
             NodesClients (Inr [''bee-0'', ''bee-1'', ''bee-2'']),
             Remove ''bee-0'' None, Remove ''bee-1'' None, Remove ''bee-2'' None] @ after)
      \<and> nodesClients (repairWorld (Inr True) [] (Inr [0x2A])) 5
          = Inr [''bee-0'', ''bee-1'', ''bee-2'']
      \<and> Reupload ''bee-0'' None \<in> set after)
   \<and> repairLoop 1 (repairWorld (Inr True) ''bee-1'' (Inr [0x2A])) 0 (Suc 0) 0 =
       Some (Return (Some (Err ''remove failed'')),
         [HasChunk ''bee-1'' (Inr True), Download ''bee-2'' [] None,
          NodesClients (Inr [''bee-0'', ''bee-1'', ''bee-2'']),
          Remove ''bee-0'' None, Remove ''bee-1'' (Some (Err ''remove failed''))])"
proof -
  let ?w = "repairWorld (Inr True) [] (Inr [0x2A])"
  let ?tr = "[HasChunk ''bee-1'' (Inr True), Download ''bee-2'' [] None,
        NodesClients (Inr [''bee-0'', ''bee-1'', ''bee-2'']),
        Remove ''bee-0'' None, Remove ''bee-1'' None, Remove ''bee-2'' None,
        Download ''bee-2'' ''10'' None, Reupload ''bee-0'' None, PinRootHash ''bee-0'' None,
        Download ''bee-2'' [] None, Repaired]"
  from C7_removal_precedes_reupload [OF demo_iteration_ok, of 0]
  obtain nodeA nodeB nodeC c ref t1 tr1 nodes after where
    h: "getNodesResult ?w 0 = Inr (nodeA, nodeB, nodeC, c)"
       "pollPresentOnB 1 ?w (Suc (Suc (Suc 0))) 0 nodeB ref = Some (None, t1, tr1)"
       "nodesClients ?w (Suc t1) = Inr nodes"
       "?tr = tr1 @ Download nodeC [] None # NodesClients (Inr nodes)
                # map (\<lambda>node. Remove node None) nodes @ after"
       "\<exists>e \<in> set after. isReupload e"
    by blast
  have n: "nodeB = ''bee-1''" "nodeC = ''bee-2''" using h(1) by (simp_all add: repairWorld_def)
  have "pollPresentOnB 1 ?w (Suc (Suc (Suc 0))) 0 ''bee-1'' ref
          = Some (None, 4, [HasChunk ''bee-1'' (Inr True)])"
    by (simp add: repairWorld_def maxIterations_def)
  then have t1: "t1 = 4" "tr1 = [HasChunk ''bee-1'' (Inr True)]" using h(2) n by simp_all
  have nodes: "nodes = [''bee-0'', ''bee-1'', ''bee-2'']"
    using h(3) by (simp add: repairWorld_def)
  have after: "?tr = [HasChunk ''bee-1'' (Inr True), Download ''bee-2'' [] None,
             NodesClients (Inr [''bee-0'', ''bee-1'', ''bee-2'']),
             Remove ''bee-0'' None, Remove ''bee-1'' None, Remove ''bee-2'' None] @ after"
    using h(4) t1 n nodes by simp
  have five: "nodesClients ?w 5 = Inr [''bee-0'', ''bee-1'', ''bee-2'']"
    using h(3) t1 nodes by simp
  have re: "Reupload ''bee-0'' None \<in> set after" using after by auto
  have a: "\<exists>after.
      repairIteration 1 ?w 0 0
        = Some (Completed, 13,
            [HasChunk ''bee-1'' (Inr True), Download ''bee-2'' [] None,
             NodesClients (Inr [''bee-0'', ''bee-1'', ''bee-2'']),
             Remove ''bee-0'' None, Remove ''bee-1'' None, Remove ''bee-2'' None] @ after)
      \<and> nodesClients ?w 5 = Inr [''bee-0'', ''bee-1'', ''bee-2'']
      \<and> Reupload ''bee-0'' None \<in> set after"
    using demo_iteration_ok after five re by metis
  have "Remove ''bee-1'' (Some (Err ''remove failed''))
          \<in> set [HasChunk ''bee-1'' (Inr True), Download ''bee-2'' [] None,
                  NodesClients (Inr [''bee-0'', ''bee-1'', ''bee-2'']),
                  Remove ''bee-0'' None, Remove ''bee-1'' (Some (Err ''remove failed''))]"
    by simp
  with C7_removal_precedes_reupload [OF demo_iteration_bad_removal, of 0]
  have b: "repairLoop 1 (repairWorld (Inr True) ''bee-1'' (Inr [0x2A])) 0 (Suc 0) 0 =
       Some (Return (Some (Err ''remove failed'')),
         [HasChunk ''bee-1'' (Inr True), Download ''bee-2'' [] None,
          NodesClients (Inr [''bee-0'', ''bee-1'', ''bee-2'']),
          Remove ''bee-0'' None, Remove ''bee-1'' (Some (Err ''remove failed''))])"
    by blast
  show ?thesis using a b by blast
qed

text \<open>
  Counterexample to claim C7 as stated: the node group lists three nodes and
  \<open>RemoveChunk\<close> fails on the first. \<open>Run\<close> returns the error, and in that iteration
  \<open>RemoveChunk\<close> was invoked on one node only: the other two were never asked.
\<close>

theorem C7_not_every_node_counterexample:
  "nodesClients (repairWorld (Inr True) ''bee-0'' (Inr [0x2A])) 5
     = Inr [''bee-0'', ''bee-1'', ''bee-2'']
   \<and> repairRun 1 (repairWorld (Inr True) ''bee-0'' (Inr [0x2A])) =
       Some (Return (Some (Err ''remove failed'')),
         [HasChunk ''bee-1'' (Inr True), Download ''bee-2'' [] None,
          NodesClients (Inr [''bee-0'', ''bee-1'', ''bee-2'']),
          Remove ''bee-0'' (Some (Err ''remove failed''))])"
proof -
  have a: "nodesClients (repairWorld (Inr True) ''bee-0'' (Inr [0x2A])) 5
     = Inr [''bee-0'', ''bee-1'', ''bee-2'']"
    by (simp add: repairWorld_def)
  have b: "repairRun 1 (repairWorld (Inr True) ''bee-0'' (Inr [0x2A])) =
       Some (Return (Some (Err ''remove failed'')),
         [HasChunk ''bee-1'' (Inr True), Download ''bee-2'' [] None,
          NodesClients (Inr [''bee-0'', ''bee-1'', ''bee-2'']),
          Remove ''bee-0'' (Some (Err ''remove failed''))])"
    by code_simp
  show ?thesis using a b by simp
qed




end
